theory Spec2Isabelle
  imports Complex_Main
begin

section \<open>JavaScript numbers\<close>

text \<open>
  Every numeric value of \<^verbatim>\<open>src/App.tsx\<close> is a JavaScript \<^verbatim>\<open>number\<close>. The model keeps the three
  non-finite values apart from the finite ones, because the source divides by values that
  can be zero (\<^verbatim>\<open>video.duration\<close>, the elapsed time) and guards only one of those divisions.
  The operations of this section give the exact result of an operation on finite numbers;
  the geometry handed to the canvas is computed with them. The numbers of the processing
  state are computed with the rounded operations of the next section. The sign of zero is
  not represented.
\<close>

datatype jsnum = Num real | PosInf | NegInf | NaN

text \<open>Truthiness of a number: \<^verbatim>\<open>0\<close> and \<^verbatim>\<open>NaN\<close> are falsy.\<close>

fun js_truthy :: "jsnum \<Rightarrow> bool" where
  "js_truthy (Num r) = (r \<noteq> 0)"
| "js_truthy PosInf = True"
| "js_truthy NegInf = True"
| "js_truthy NaN = False"

text \<open>\<^verbatim>\<open>a || b\<close> on numbers.\<close>

definition js_or :: "jsnum \<Rightarrow> jsnum \<Rightarrow> jsnum" where
  "js_or a b = (if js_truthy a then a else b)"

text \<open>\<^verbatim>\<open>a / b\<close>: a finite value over zero is an infinity, zero over zero is \<^verbatim>\<open>NaN\<close>.\<close>

fun js_div :: "jsnum \<Rightarrow> jsnum \<Rightarrow> jsnum" where
  "js_div (Num a) (Num b) =
     (if b = 0 then (if a = 0 then NaN else if 0 < a then PosInf else NegInf)
      else Num (a / b))"
| "js_div (Num a) PosInf = Num 0"
| "js_div (Num a) NegInf = Num 0"
| "js_div PosInf (Num b) = (if 0 \<le> b then PosInf else NegInf)"
| "js_div NegInf (Num b) = (if 0 \<le> b then NegInf else PosInf)"
| "js_div PosInf PosInf = NaN"
| "js_div PosInf NegInf = NaN"
| "js_div NegInf PosInf = NaN"
| "js_div NegInf NegInf = NaN"
| "js_div NaN b = NaN"
| "js_div a NaN = NaN"

text \<open>\<^verbatim>\<open>a * b\<close>: zero times an infinity is \<^verbatim>\<open>NaN\<close>.\<close>

fun js_mul :: "jsnum \<Rightarrow> jsnum \<Rightarrow> jsnum" where
  "js_mul (Num a) (Num b) = Num (a * b)"
| "js_mul (Num a) PosInf = (if a = 0 then NaN else if 0 < a then PosInf else NegInf)"
| "js_mul (Num a) NegInf = (if a = 0 then NaN else if 0 < a then NegInf else PosInf)"
| "js_mul PosInf (Num b) = (if b = 0 then NaN else if 0 < b then PosInf else NegInf)"
| "js_mul NegInf (Num b) = (if b = 0 then NaN else if 0 < b then NegInf else PosInf)"
| "js_mul PosInf PosInf = PosInf"
| "js_mul PosInf NegInf = NegInf"
| "js_mul NegInf PosInf = NegInf"
| "js_mul NegInf NegInf = PosInf"
| "js_mul NaN b = NaN"
| "js_mul a NaN = NaN"

fun js_add :: "jsnum \<Rightarrow> jsnum \<Rightarrow> jsnum" where
  "js_add (Num a) (Num b) = Num (a + b)"
| "js_add (Num a) PosInf = PosInf"
| "js_add (Num a) NegInf = NegInf"
| "js_add PosInf (Num b) = PosInf"
| "js_add NegInf (Num b) = NegInf"
| "js_add PosInf PosInf = PosInf"
| "js_add PosInf NegInf = NaN"
| "js_add NegInf PosInf = NaN"
| "js_add NegInf NegInf = NegInf"
| "js_add NaN b = NaN"
| "js_add a NaN = NaN"

fun js_neg :: "jsnum \<Rightarrow> jsnum" where
  "js_neg (Num a) = Num (- a)"
| "js_neg PosInf = NegInf"
| "js_neg NegInf = PosInf"
| "js_neg NaN = NaN"

definition js_sub :: "jsnum \<Rightarrow> jsnum \<Rightarrow> jsnum" where
  "js_sub a b = js_add a (js_neg b)"

text \<open>\<^verbatim>\<open>Math.max\<close> and \<^verbatim>\<open>Math.min\<close> of two arguments: \<^verbatim>\<open>NaN\<close> if either is.\<close>

fun js_max :: "jsnum \<Rightarrow> jsnum \<Rightarrow> jsnum" where
  "js_max NaN b = NaN"
| "js_max a NaN = NaN"
| "js_max PosInf b = PosInf"
| "js_max a PosInf = PosInf"
| "js_max NegInf b = b"
| "js_max a NegInf = a"
| "js_max (Num a) (Num b) = Num (max a b)"

fun js_min :: "jsnum \<Rightarrow> jsnum \<Rightarrow> jsnum" where
  "js_min NaN b = NaN"
| "js_min a NaN = NaN"
| "js_min NegInf b = NegInf"
| "js_min a NegInf = NegInf"
| "js_min PosInf b = b"
| "js_min a PosInf = a"
| "js_min (Num a) (Num b) = Num (min a b)"

text \<open>
  \<^verbatim>\<open>Math.floor\<close>, \<^verbatim>\<open>Math.ceil\<close> and \<^verbatim>\<open>Math.round\<close> leave the non-finite values alone;
  \<^verbatim>\<open>Math.round\<close> rounds a half towards plus infinity.
\<close>

fun js_floor :: "jsnum \<Rightarrow> jsnum" where
  "js_floor (Num a) = Num (of_int \<lfloor>a\<rfloor>)"
| "js_floor a = a"

fun js_ceil :: "jsnum \<Rightarrow> jsnum" where
  "js_ceil (Num a) = Num (of_int \<lceil>a\<rceil>)"
| "js_ceil a = a"

fun js_round :: "jsnum \<Rightarrow> jsnum" where
  "js_round (Num a) = Num (of_int \<lfloor>a + 1 / 2\<rfloor>)"
| "js_round a = a"

fun js_abs :: "jsnum \<Rightarrow> jsnum" where
  "js_abs (Num a) = Num \<bar>a\<bar>"
| "js_abs PosInf = PosInf"
| "js_abs NegInf = PosInf"
| "js_abs NaN = NaN"

fun js_sin :: "jsnum \<Rightarrow> jsnum" where
  "js_sin (Num a) = Num (sin a)"
| "js_sin a = NaN"

fun js_cos :: "jsnum \<Rightarrow> jsnum" where
  "js_cos (Num a) = Num (cos a)"
| "js_cos a = NaN"

definition Math_PI :: jsnum where
  "Math_PI = Num pi"

text \<open>The real behind a finite number (and 0 for the others, which it is never asked about).\<close>

fun finite_val :: "jsnum \<Rightarrow> real" where
  "finite_val (Num a) = a"
| "finite_val a = 0"

text \<open>\<^verbatim>\<open>a <= b\<close>: false when either side is \<^verbatim>\<open>NaN\<close>.\<close>

fun js_le :: "jsnum \<Rightarrow> jsnum \<Rightarrow> bool" where
  "js_le NaN b = False"
| "js_le a NaN = False"
| "js_le NegInf b = True"
| "js_le a PosInf = True"
| "js_le (Num a) (Num b) = (a \<le> b)"
| "js_le a b = False"

section \<open>Rounding to binary64\<close>

text \<open>
  A \<^verbatim>\<open>number\<close> is an IEEE 754 binary64 value, and the result of a product, a quotient or a
  difference is the exact result rounded to the nearest such value, ties to the even
  significand. \<open>rne\<close> rounds a real to the nearest integer, ties to even.
\<close>

definition rne :: "real \<Rightarrow> int" where
  "rne q =
     (let f = \<lfloor>q\<rfloor>; r = q - of_int f
      in if r < 1 / 2 then f else if 1 / 2 < r then f + 1 else if even f then f else f + 1)"

text \<open>
  The exponent of the unit in the last place of a positive real: 52 below its binade, and
  never below that of the subnormal numbers.
\<close>

definition ulp_exp :: "real \<Rightarrow> int" where
  "ulp_exp a = max (\<lfloor>log 2 a\<rfloor> - 52) (- 1074)"

definition round_pos :: "real \<Rightarrow> real" where
  "round_pos a = of_int (rne (a / 2 powi ulp_exp a)) * 2 powi ulp_exp a"

definition binary64 :: "real \<Rightarrow> real" where
  "binary64 x = (if x = 0 then 0 else if 0 < x then round_pos x else - round_pos (- x))"

text \<open>A rounded magnitude of \<open>2 ^ 1024\<close> or more is an infinity.\<close>

definition double_limit :: real where
  "double_limit = 2 ^ 1024"

definition to_double :: "real \<Rightarrow> jsnum" where
  "to_double x =
     (if double_limit \<le> binary64 x then PosInf
      else if binary64 x \<le> - double_limit then NegInf
      else Num (binary64 x))"

definition fl_result :: "jsnum \<Rightarrow> jsnum" where
  "fl_result v = (case v of Num r \<Rightarrow> to_double r | _ \<Rightarrow> v)"

text \<open>\<^verbatim>\<open>a * b\<close>, \<^verbatim>\<open>a / b\<close> and \<^verbatim>\<open>a - b\<close> as the language computes them.\<close>

definition fl_mul :: "jsnum \<Rightarrow> jsnum \<Rightarrow> jsnum" where
  "fl_mul a b = fl_result (js_mul a b)"

definition fl_div :: "jsnum \<Rightarrow> jsnum \<Rightarrow> jsnum" where
  "fl_div a b = fl_result (js_div a b)"

definition fl_sub :: "jsnum \<Rightarrow> jsnum \<Rightarrow> jsnum" where
  "fl_sub a b = fl_result (js_sub a b)"

section \<open>Progress of playback\<close>

text \<open>
  The expression \<^verbatim>\<open>video.currentTime / (video.duration || 1)\<close> of the preview loop (line 134)
  and of the compositor loop (line 273): the normalised progress handed to \<^verbatim>\<open>drawLines\<close>.
\<close>

definition frame_progress :: "jsnum \<Rightarrow> jsnum \<Rightarrow> jsnum" where
  "frame_progress currentTime duration = js_div currentTime (js_or duration (Num 1))"

section \<open>The drawing surface\<close>

text \<open>
  The 2D context of the canvas, as far as \<^verbatim>\<open>drawLines\<close> and both render callbacks use it:
  the stroke style, the line width, the current path (a list of subpaths) and the log of
  what has been painted, oldest first. The rules of the context's methods are those of the
  canvas interface: setting \<^verbatim>\<open>lineWidth\<close> to a value that is not finite and positive is
  ignored, a colour string that does not parse is ignored and a parsed alpha is clamped
  to the unit interval, \<^verbatim>\<open>moveTo\<close> and \<^verbatim>\<open>lineTo\<close> ignore coordinates that are not finite.
\<close>

type_synonym point = "jsnum \<times> jsnum"

datatype colour = RGBA nat nat nat real

datatype paint_op =
    Image jsnum jsnum jsnum
  | Stroke "point list list" colour jsnum

record canvas_ctx =
  strokeStyle :: colour
  lineWidth :: jsnum
  path :: "point list list"
  painted :: "paint_op list"

definition default_ctx :: canvas_ctx where
  "default_ctx = \<lparr>strokeStyle = RGBA 0 0 0 1, lineWidth = Num 1, path = [], painted = []\<rparr>"

fun is_finite :: "jsnum \<Rightarrow> bool" where
  "is_finite (Num a) = True"
| "is_finite a = False"

text \<open>
  \<^verbatim>\<open>ctx.strokeStyle = `rgba(255, 255, 255, ${opacity})`\<close>: the string parses exactly when
  \<^verbatim>\<open>opacity\<close> prints as a number.
\<close>

fun set_strokeStyle_white :: "jsnum \<Rightarrow> canvas_ctx \<Rightarrow> canvas_ctx" where
  "set_strokeStyle_white (Num a) c = c\<lparr>strokeStyle := RGBA 255 255 255 (min 1 (max 0 a))\<rparr>"
| "set_strokeStyle_white a c = c"

fun set_lineWidth :: "jsnum \<Rightarrow> canvas_ctx \<Rightarrow> canvas_ctx" where
  "set_lineWidth (Num a) c = (if 0 < a then c\<lparr>lineWidth := Num a\<rparr> else c)"
| "set_lineWidth a c = c"

definition beginPath :: "canvas_ctx \<Rightarrow> canvas_ctx" where
  "beginPath c = c\<lparr>path := []\<rparr>"

definition moveTo :: "jsnum \<Rightarrow> jsnum \<Rightarrow> canvas_ctx \<Rightarrow> canvas_ctx" where
  "moveTo x y c = (if is_finite x \<and> is_finite y then c\<lparr>path := path c @ [[(x, y)]]\<rparr> else c)"

definition lineTo :: "jsnum \<Rightarrow> jsnum \<Rightarrow> canvas_ctx \<Rightarrow> canvas_ctx" where
  "lineTo x y c =
     (if is_finite x \<and> is_finite y then
        (if path c = [] then c\<lparr>path := [[(x, y)]]\<rparr>
         else c\<lparr>path := butlast (path c) @ [last (path c) @ [(x, y)]]\<rparr>)
      else c)"

definition stroke :: "canvas_ctx \<Rightarrow> canvas_ctx" where
  "stroke c = c\<lparr>painted := painted c @ [Stroke (path c) (strokeStyle c) (lineWidth c)]\<rparr>"

text \<open>
  \<^verbatim>\<open>ctx.drawImage(video, 0, 0, canvas.width, canvas.height)\<close>: the frame shown at the
  video's current time, scaled to the whole surface.
\<close>

definition drawImage :: "jsnum \<Rightarrow> jsnum \<Rightarrow> jsnum \<Rightarrow> canvas_ctx \<Rightarrow> canvas_ctx" where
  "drawImage frame_time w h c = c\<lparr>painted := painted c @ [Image frame_time w h]\<rparr>"

text \<open>
  What a viewer sees of the overlay at one pixel. The context composites source-over (its
  default, which the source never changes). The rasteriser is the browser's: \<open>cov op\<close> is
  the share of the pixel that it finds covered by the stroke \<open>op\<close>, 1 inside a line, 0
  away from it, and a fraction where anti-aliasing softens an edge. A stroke of alpha
  \<open>a\<close> that covers the share \<open>k\<close> of a pixel showing the overlay with opacity \<open>o\<close>
  leaves it showing with opacity \<open>a * k + (1 - a * k) * o\<close>; a video frame drawn over
  the whole surface hides every earlier stroke.
\<close>

fun alpha :: "colour \<Rightarrow> real" where
  "alpha (RGBA r g b a) = a"

fun composite :: "(paint_op \<Rightarrow> real) \<Rightarrow> paint_op list \<Rightarrow> real \<Rightarrow> real" where
  "composite cov [] acc = acc"
| "composite cov (Image t w h # ops) acc = composite cov ops 0"
| "composite cov (Stroke p c w # ops) acc =
     composite cov ops
       (alpha c * cov (Stroke p c w) + (1 - alpha c * cov (Stroke p c w)) * acc)"

definition overlay_opacity :: "(paint_op \<Rightarrow> real) \<Rightarrow> canvas_ctx \<Rightarrow> real" where
  "overlay_opacity cov c = composite cov (painted c) 0"

section \<open>The overlay renderer\<close>

text \<open>The five style values that \<^verbatim>\<open>drawLines\<close> closes over.\<close>

record style_config =
  showVertical :: bool
  showHorizontal :: bool
  showRotating :: bool
  lineThickness :: jsnum
  lineOpacity :: jsnum

text \<open>The position of a bouncing line: \<^verbatim>\<open>Math.abs(Math.sin(progress * Math.PI * 2)) * extent\<close>.\<close>

definition bounce :: "jsnum \<Rightarrow> jsnum \<Rightarrow> jsnum" where
  "bounce p extent = js_mul (js_abs (js_sin (js_mul (js_mul p Math_PI) (Num 2)))) extent"

definition drawLines :: "style_config \<Rightarrow> jsnum \<Rightarrow> jsnum \<Rightarrow> jsnum \<Rightarrow> canvas_ctx \<Rightarrow> canvas_ctx" where
  "drawLines cfg width height p ctx0 =
     (let thickness = lineThickness cfg;
          opacity = js_div (lineOpacity cfg) (Num 100);
          ctx1 = set_strokeStyle_white opacity ctx0;
          ctx2 = set_lineWidth thickness ctx1;
          ctx3 = (if showVertical cfg then
                    (let x = bounce p width
                     in stroke (lineTo x height (moveTo x (Num 0) (beginPath ctx2))))
                  else ctx2);
          ctx4 = (if showHorizontal cfg then
                    (let y = bounce p height
                     in stroke (lineTo width y (moveTo (Num 0) y (beginPath ctx3))))
                  else ctx3);
          ctx5 = (if showRotating cfg then
                    (let centerX = js_div width (Num 2);
                         centerY = js_div height (Num 2);
                         radius = js_mul (js_min width height) (Num (4 / 10));
                         angle = js_mul (js_mul p Math_PI) (Num 2)
                     in stroke (lineTo (js_add centerX (js_mul (js_cos angle) radius))
                                       (js_add centerY (js_mul (js_sin angle) radius))
                                  (moveTo centerX centerY (beginPath ctx4))))
                  else ctx4)
      in ctx5)"

section \<open>The state of the component\<close>

text \<open>
  An object URL stands for what it was created from: the uploaded file, or a blob made of
  the recorded chunks and a type tag. A chunk is the list of its bytes.
\<close>

type_synonym chunk = "nat list"

datatype object_url = FileURL string | BlobURL "chunk list" string

record processing_state =
  isProcessing :: bool
  progress :: jsnum
  fps :: jsnum
  processedFrames :: jsnum
  totalFrames :: jsnum
  estimatedTimeRemaining :: jsnum

datatype recorder_state = Inactive | Recording | Paused

text \<open>
  The \<^verbatim>\<open>MediaRecorder\<close> of a session. \<open>stop_queued\<close> says that \<^verbatim>\<open>stop()\<close> has been called and
  the recorder's \<^verbatim>\<open>stop\<close> event has not been delivered yet.
\<close>

record media_recorder =
  mimeType :: string
  videoBitsPerSecond :: nat
  audioBitsPerSecond :: nat
  state :: recorder_state
  timeslice :: "nat option"
  stop_queued :: bool

text \<open>
  The \<^verbatim>\<open>useState\<close> values and the refs of \<^verbatim>\<open>App\<close>. The five style values are grouped in
  \<open>style\<close>. \<open>frame_scheduled\<close> says that a callback registered with
  \<^verbatim>\<open>requestAnimationFrame\<close> is pending; \<open>animationRef\<close> holds the id of the last one
  registered. For the stream, the audio element and the audio context the model keeps
  whether the ref is set and whether the object behind it is still live (tracks not
  stopped, playing, not closed).
\<close>

record app_state =
  videoUrl :: "object_url option"
  processedVideoUrl :: "object_url option"
  isPlaying :: bool
  style :: style_config
  processing :: processing_state
  canvas :: canvas_ctx
  canvas_width :: jsnum
  canvas_height :: jsnum
  animationRef :: "nat option"
  frame_scheduled :: bool
  mediaRecorderRef :: "media_recorder option"
  recordedChunksRef :: "chunk list"
  streamRef :: "bool option"
  audioElementRef :: "bool option"
  audioContextRef :: "bool option"

definition initial_state :: app_state where
  "initial_state =
     \<lparr>videoUrl = None, processedVideoUrl = None, isPlaying = False,
      style = \<lparr>showVertical = True, showHorizontal = False, showRotating = False,
               lineThickness = Num 2, lineOpacity = Num 70\<rparr>,
      processing = \<lparr>isProcessing = False, progress = Num 0, fps = Num 0,
                    processedFrames = Num 0, totalFrames = Num 0,
                    estimatedTimeRemaining = Num 0\<rparr>,
      canvas = default_ctx, canvas_width = Num 300, canvas_height = Num 150,
      animationRef = None, frame_scheduled = False, mediaRecorderRef = None,
      recordedChunksRef = [], streamRef = None, audioElementRef = None,
      audioContextRef = None\<rparr>"

text \<open>
  \<^verbatim>\<open>handleFileUpload\<close>: \<^verbatim>\<open>event.target.files?.[0]\<close> is the chosen file, or undefined when the
  dialog was closed without one.
\<close>

definition handleFileUpload :: "string option \<Rightarrow> app_state \<Rightarrow> app_state" where
  "handleFileUpload file s =
     (case file of
        None \<Rightarrow> s
      | Some f \<Rightarrow>
          s\<lparr>videoUrl := Some (FileURL f),
            processedVideoUrl := None,
            processing := (processing s)\<lparr>progress := Num 0, processedFrames := Num 0\<rparr>\<rparr>)"

text \<open>Assigning \<^verbatim>\<open>canvas.width\<close> and \<^verbatim>\<open>canvas.height\<close> clears the surface and resets its context.\<close>

definition resize_canvas :: "jsnum \<Rightarrow> jsnum \<Rightarrow> app_state \<Rightarrow> app_state" where
  "resize_canvas w h s = s\<lparr>canvas := default_ctx, canvas_width := w, canvas_height := h\<rparr>"

section \<open>The preview loop\<close>

text \<open>What one callback reads from a video element, and the clock.\<close>

record frame_reading =
  currentTime :: jsnum
  duration :: jsnum
  paused :: bool
  ended :: bool
  clock :: jsnum

text \<open>
  \<^verbatim>\<open>renderFrame\<close> of the preview effect (lines 127 to 141); \<open>vw\<close> and \<open>vh\<close> are
  \<^verbatim>\<open>video.videoWidth\<close> and \<^verbatim>\<open>video.videoHeight\<close>, \<open>next_id\<close> the id that
  \<^verbatim>\<open>requestAnimationFrame\<close> returns.
\<close>

definition preview_renderFrame ::
  "jsnum \<Rightarrow> jsnum \<Rightarrow> frame_reading \<Rightarrow> nat \<Rightarrow> app_state \<Rightarrow> app_state" where
  "preview_renderFrame vw vh rd next_id s =
     (let s1 = (if js_truthy vw \<and> js_truthy vh then
                  (let s' = resize_canvas vw vh s;
                       c1 = drawImage (currentTime rd) (canvas_width s') (canvas_height s') (canvas s');
                       p = frame_progress (currentTime rd) (duration rd)
                   in s'\<lparr>canvas := drawLines (style s') (canvas_width s') (canvas_height s') p c1\<rparr>)
                else s)
      in if \<not> paused rd \<and> \<not> ended rd
         then s1\<lparr>animationRef := Some next_id, frame_scheduled := True\<rparr>
         else s1)"

section \<open>Starting a session\<close>

text \<open>
  The wait for the audio element (lines 191 to 196): a promise that \<^verbatim>\<open>oncanplaythrough\<close>
  resolves, \<^verbatim>\<open>onerror\<close> rejects and a timer of 1000 ms resolves. Only the first of the three
  settles it. The element's signals are given with the time in milliseconds since the
  promise was created, in the order in which they arrive; a signal stamped before the
  timer's delay is delivered before the timer.
\<close>

datatype audio_signal = CanPlayThrough | LoadError

datatype audio_outcome = ReadyFired | TimedOut | LoadFailed

definition audio_timeout_ms :: nat where
  "audio_timeout_ms = 1000"

text \<open>The outcome of the wait and the time at which the promise settles.\<close>

fun wait_audio :: "(nat \<times> audio_signal) list \<Rightarrow> audio_outcome \<times> nat" where
  "wait_audio [] = (TimedOut, audio_timeout_ms)"
| "wait_audio ((t, sig) # rest) =
     (if t < audio_timeout_ms then
        (case sig of CanPlayThrough \<Rightarrow> (ReadyFired, t) | LoadError \<Rightarrow> (LoadFailed, t))
      else (TimedOut, audio_timeout_ms))"

text \<open>The probe of lines 214 to 218; \<open>supported\<close> is \<^verbatim>\<open>MediaRecorder.isTypeSupported\<close>.\<close>

definition select_mimeType :: "(string \<Rightarrow> bool) \<Rightarrow> string" where
  "select_mimeType supported =
     (if supported ''video/webm;codecs=vp9,opus'' then ''video/webm;codecs=vp9,opus''
      else if supported ''video/webm;codecs=vp8,opus'' then ''video/webm;codecs=vp8,opus''
      else ''video/webm'')"

text \<open>
  What \<^verbatim>\<open>processVideo\<close> finds in the browser: the mounted elements and their metadata, the
  codec support, the audio element's signals, whether the hidden video ever reports its
  metadata, whether both \<^verbatim>\<open>play()\<close> promises fulfil, and the id of the first scheduled
  callback. \<^verbatim>\<open>performance.now()\<close> is read once playback has started, and what it shows
  then depends on how long the call has waited for the audio element:
  \<open>clock_when_started w\<close> is the reading after a wait of \<open>w\<close> milliseconds.
\<close>

record browser_env =
  video_mounted :: bool
  canvas_mounted :: bool
  ctx_available :: bool
  videoWidth :: jsnum
  videoHeight :: jsnum
  video_duration :: jsnum
  isTypeSupported :: "string \<Rightarrow> bool"
  audio_signals :: "(nat \<times> audio_signal) list"
  metadata_loads :: bool
  play_fulfils :: bool
  clock_when_started :: "nat \<Rightarrow> jsnum"
  first_frame_id :: nat

text \<open>
  What the callbacks of one call of \<^verbatim>\<open>processVideo\<close> close over: \<^verbatim>\<open>duration\<close>,
  \<^verbatim>\<open>mimeType\<close>, \<^verbatim>\<open>startTime\<close>, and the style values behind the \<^verbatim>\<open>drawLines\<close> of that render.
\<close>

record session =
  ss_duration :: jsnum
  ss_mimeType :: string
  ss_startTime :: jsnum
  ss_style :: style_config

text \<open>
  How a call of \<^verbatim>\<open>processVideo\<close> ends: it returns at a guard, its promise rejects (the
  audio element's error, the recorder's constructor refusing the type, a \<^verbatim>\<open>play()\<close> that
  rejects), it waits for metadata that never comes, or it has scheduled the render loop.
\<close>

datatype start_outcome =
    ReturnedEarly
  | AudioRejected
  | NotSupportedError
  | AwaitingMetadata
  | PlayRejected
  | LoopStarted session

definition targetFps :: jsnum where
  "targetFps = Num 30"

text \<open>
  \<^verbatim>\<open>processVideo\<close> (lines 157 to 316), with no other handler running between its awaits.
  The recorder's constructor throws when the type is not supported.
\<close>

definition processVideo :: "browser_env \<Rightarrow> app_state \<Rightarrow> start_outcome \<times> app_state" where
  "processVideo env s =
     (if \<not> video_mounted env \<or> \<not> canvas_mounted env \<or> videoUrl s = None then (ReturnedEarly, s)
      else if \<not> ctx_available env then (ReturnedEarly, s)
      else
        (let s1 = resize_canvas (videoWidth env) (videoHeight env) s;
             d = video_duration env;
             s2 = s1\<lparr>processing :=
                       \<lparr>isProcessing = True, progress = Num 0, fps = Num 0,
                        processedFrames = Num 0, totalFrames = js_ceil d,
                        estimatedTimeRemaining = js_ceil d\<rparr>,
                     audioElementRef := Some False\<rparr>;
             waited = wait_audio (audio_signals env)
         in case fst waited of
              LoadFailed \<Rightarrow> (AudioRejected, s2)
            | _ \<Rightarrow>
               (let s3 = s2\<lparr>audioContextRef := Some True, streamRef := Some True\<rparr>;
                    mt = select_mimeType (isTypeSupported env)
                in if \<not> isTypeSupported env mt then (NotSupportedError, s3)
                   else
                     (let s4 = s3\<lparr>mediaRecorderRef :=
                                     Some \<lparr>mimeType = mt, videoBitsPerSecond = 8000000,
                                           audioBitsPerSecond = 128000, state = Inactive,
                                           timeslice = None, stop_queued = False\<rparr>,
                                   recordedChunksRef := []\<rparr>
                      in if \<not> metadata_loads env then (AwaitingMetadata, s4)
                         else
                           (let s5 = s4\<lparr>mediaRecorderRef :=
                                           map_option (\<lambda>r. r\<lparr>state := Recording, timeslice := Some 100\<rparr>)
                                             (mediaRecorderRef s4)\<rparr>
                            in if \<not> play_fulfils env then (PlayRejected, s5)
                               else
                                 (LoopStarted \<lparr>ss_duration = d, ss_mimeType = mt,
                                               ss_startTime = clock_when_started env (snd waited),
                                               ss_style = style s\<rparr>,
                                  s5\<lparr>audioElementRef := Some True,
                                     animationRef := Some (first_frame_id env),
                                     frame_scheduled := True\<rparr>))))))"

section \<open>The callbacks of a running session\<close>

text \<open>\<^verbatim>\<open>mediaRecorder.stop()\<close>: nothing on an inactive recorder; otherwise the recorder becomes
  inactive at once and its \<^verbatim>\<open>stop\<close> event is queued.\<close>

definition recorder_stop :: "media_recorder \<Rightarrow> media_recorder" where
  "recorder_stop r = (if state r = Inactive then r else r\<lparr>state := Inactive, stop_queued := True\<rparr>)"

text \<open>\<^verbatim>\<open>mediaRecorder.ondataavailable\<close> (lines 229 to 233).\<close>

definition ondataavailable :: "chunk \<Rightarrow> app_state \<Rightarrow> app_state" where
  "ondataavailable data s =
     (if 0 < length data then s\<lparr>recordedChunksRef := recordedChunksRef s @ [data]\<rparr> else s)"

text \<open>\<^verbatim>\<open>mediaRecorder.onstop\<close> (lines 235 to 242).\<close>

definition onstop :: "session \<Rightarrow> app_state \<Rightarrow> app_state" where
  "onstop cl s =
     s\<lparr>processedVideoUrl := Some (BlobURL (recordedChunksRef s) (ss_mimeType cl)),
       processing := (processing s)\<lparr>isProcessing := False, progress := Num 100\<rparr>,
       audioContextRef := map_option (\<lambda>_. False) (audioContextRef s)\<rparr>"

text \<open>
  \<^verbatim>\<open>renderFrame\<close> of the compositor loop (lines 267 to 312). The reading is that of the
  hidden video; \<open>next_id\<close> is the id that \<^verbatim>\<open>requestAnimationFrame\<close> returns. The
  numbers of the processing state are rounded to binary64 after each operation.
\<close>

definition renderFrame :: "session \<Rightarrow> frame_reading \<Rightarrow> nat \<Rightarrow> app_state \<Rightarrow> app_state" where
  "renderFrame cl rd next_id s =
     (if \<not> paused rd \<and> \<not> ended rd then
        (let c1 = drawImage (currentTime rd) (canvas_width s) (canvas_height s) (canvas s);
             p = frame_progress (currentTime rd) (duration rd);
             c2 = drawLines (ss_style cl) (canvas_width s) (canvas_height s) p c1;
             elapsed = fl_div (fl_sub (clock rd) (ss_startTime cl)) (Num 1000);
             remaining = js_max (Num 0) (fl_sub (ss_duration cl) (currentTime rd))
         in s\<lparr>canvas := c2,
              processing :=
                \<lparr>isProcessing = True,
                 progress = fl_mul (fl_div (currentTime rd) (ss_duration cl)) (Num 100),
                 fps = fl_div (js_round (fl_mul (fl_div (currentTime rd) elapsed) (Num 10))) (Num 10),
                 processedFrames = js_floor (fl_mul (currentTime rd) targetFps),
                 totalFrames = js_ceil (ss_duration cl),
                 estimatedTimeRemaining = js_round remaining\<rparr>,
              animationRef := Some next_id,
              frame_scheduled := True\<rparr>)
      else if ended rd then
        s\<lparr>mediaRecorderRef := map_option recorder_stop (mediaRecorderRef s),
          audioElementRef := None,
          audioContextRef := None,
          streamRef := map_option (\<lambda>_. False) (streamRef s),
          frame_scheduled := (if animationRef s = None then frame_scheduled s else False)\<rparr>
      else s)"

text \<open>\<^verbatim>\<open>cancelProcessing\<close> (lines 319 to 340).\<close>

definition cancelProcessing :: "app_state \<Rightarrow> app_state" where
  "cancelProcessing s =
     s\<lparr>mediaRecorderRef := map_option recorder_stop (mediaRecorderRef s),
       streamRef := map_option (\<lambda>_. False) (streamRef s),
       audioElementRef := None,
       audioContextRef := None,
       frame_scheduled := (if animationRef s = None then frame_scheduled s else False),
       processing := (processing s)\<lparr>isProcessing := False\<rparr>\<rparr>"

section \<open>A session as a sequence of events\<close>

text \<open>
  What can happen once the loop is scheduled: the browser runs the scheduled callback (if
  one is pending), the recorder hands over a chunk, the recorder's queued \<^verbatim>\<open>stop\<close> event is
  delivered, the user clicks Cancel (the button is rendered only while
  \<^verbatim>\<open>processing.isProcessing\<close> holds).
\<close>

datatype event =
    AnimationFrame frame_reading nat
  | DataAvailable chunk
  | StopEvent
  | CancelClick

fun step :: "session \<Rightarrow> app_state \<Rightarrow> event \<Rightarrow> app_state" where
  "step cl s (AnimationFrame rd next_id) =
     (if frame_scheduled s then renderFrame cl rd next_id (s\<lparr>frame_scheduled := False\<rparr>) else s)"
| "step cl s (DataAvailable data) = ondataavailable data s"
| "step cl s StopEvent =
     (case mediaRecorderRef s of
        None \<Rightarrow> s
      | Some r \<Rightarrow>
          (if stop_queued r
           then onstop cl (s\<lparr>mediaRecorderRef := Some (r\<lparr>stop_queued := False\<rparr>)\<rparr>)
           else s))"
| "step cl s CancelClick = (if isProcessing (processing s) then cancelProcessing s else s)"

definition run :: "session \<Rightarrow> app_state \<Rightarrow> event list \<Rightarrow> app_state" where
  "run cl s evs = foldl (step cl) s evs"

text \<open>The values of \<^verbatim>\<open>processing.progress\<close> after each event of a run, in order.\<close>

fun progress_trace :: "session \<Rightarrow> app_state \<Rightarrow> event list \<Rightarrow> jsnum list" where
  "progress_trace cl s [] = []"
| "progress_trace cl s (e # es) =
     progress (processing (step cl s e)) # progress_trace cl (step cl s e) es"

section \<open>What is rendered\<close>

text \<open>
  The conditions under which the controls of the page are rendered: the upload field
  (line 371), the Process Video button (line 414), the Cancel button (line 424) and the
  download panel with its message \<^verbatim>\<open>Video processed successfully!\<close> (line 453).
\<close>

definition shows_upload :: "app_state \<Rightarrow> bool" where
  "shows_upload s \<longleftrightarrow> videoUrl s = None"

definition shows_process_button :: "app_state \<Rightarrow> bool" where
  "shows_process_button s \<longleftrightarrow>
     videoUrl s \<noteq> None \<and> \<not> isProcessing (processing s) \<and> processedVideoUrl s = None"

definition shows_cancel_button :: "app_state \<Rightarrow> bool" where
  "shows_cancel_button s \<longleftrightarrow> videoUrl s \<noteq> None \<and> isProcessing (processing s)"

definition shows_download :: "app_state \<Rightarrow> bool" where
  "shows_download s \<longleftrightarrow> processedVideoUrl s \<noteq> None \<and> \<not> isProcessing (processing s)"

section \<open>A sample session\<close>

text \<open>
  A ten-second clip in a browser that records VP8 but not VP9 and whose audio element
  reports readiness only after two and a half seconds; the clock shows 0 when Process
  Video is clicked, and nothing but the audio element keeps the call waiting. The concrete
  runs below start here.
\<close>

definition sample_env :: browser_env where
  "sample_env =
     \<lparr>video_mounted = True, canvas_mounted = True, ctx_available = True,
      videoWidth = Num 640, videoHeight = Num 360, video_duration = Num 10,
      isTypeSupported = (\<lambda>m. m = ''video/webm;codecs=vp8,opus'' \<or> m = ''video/webm''),
      audio_signals = [(2500, CanPlayThrough)],
      metadata_loads = True, play_fulfils = True, clock_when_started = (\<lambda>w. Num (real w)),
      first_frame_id = 1\<rparr>"

definition sample_uploaded :: app_state where
  "sample_uploaded = handleFileUpload (Some ''clip.mp4'') initial_state"

definition sample_session :: session where
  "sample_session =
     \<lparr>ss_duration = Num 10, ss_mimeType = ''video/webm;codecs=vp8,opus'',
      ss_startTime = Num 1000, ss_style = style initial_state\<rparr>"

definition sample_running :: app_state where
  "sample_running = snd (processVideo sample_env sample_uploaded)"

text \<open>The hidden video playing at time \<open>t\<close> (seconds) when the clock shows \<open>c\<close> (milliseconds).\<close>

definition playing_at :: "real \<Rightarrow> real \<Rightarrow> frame_reading" where
  "playing_at t c =
     \<lparr>currentTime = Num t, duration = Num 10, paused = False, ended = False, clock = Num c\<rparr>"

section \<open>Basic facts\<close>

lemma frame_progress_Num:
  "frame_progress (Num t) (Num d) = (if d = 0 then Num t else Num (t / d))"
  by (simp add: frame_progress_def js_or_def)

lemma run_Nil [simp]: "run cl s [] = s"
  by (simp add: run_def)

lemma run_Cons [simp]: "run cl s (e # es) = run cl (step cl s e) es"
  by (simp add: run_def)

section \<open>Facts about rounding\<close>

lemma rne_error: "\<bar>of_int (rne q) - q\<bar> \<le> 1 / 2"
  unfolding rne_def Let_def by (auto; linarith)

lemma rne_int [simp]: "rne (of_int n) = n"
  by (simp add: rne_def)

lemma rne_mono: "q \<le> q' \<Longrightarrow> rne q \<le> rne q'"
proof (rule ccontr)
  assume le: "q \<le> q'" and "\<not> rne q \<le> rne q'"
  then have "rne q' + 1 \<le> rne q" by simp
  then have "real_of_int (rne q') + 1 \<le> of_int (rne q)" by linarith
  with rne_error[of q] rne_error[of q'] le have "q = q'" by linarith
  with \<open>\<not> rne q \<le> rne q'\<close> show False by simp
qed

lemma powr_powi: "2 powr real_of_int k = (2::real) powi k"
  by (auto simp: powr_real_of_int power_int_def power_one_over inverse_eq_divide)

lemma powi_nat: "0 \<le> k \<Longrightarrow> (2::real) powi k = of_int (2 ^ nat k)"
  by (simp add: power_int_def)

lemma binade:
  assumes "0 < a"
  shows "2 powi \<lfloor>log 2 a\<rfloor> \<le> a" and "a < 2 powi (\<lfloor>log 2 a\<rfloor> + 1)"
proof -
  have "2 powr real_of_int \<lfloor>log 2 a\<rfloor> \<le> a \<and> a < 2 powr real_of_int (\<lfloor>log 2 a\<rfloor> + 1)"
    using floor_log_eq_powr_iff[of a 2 "\<lfloor>log 2 a\<rfloor>"] assms by simp
  then show "2 powi \<lfloor>log 2 a\<rfloor> \<le> a" and "a < 2 powi (\<lfloor>log 2 a\<rfloor> + 1)"
    by (simp_all only: powr_powi)
qed

lemma floor_log_mono: "0 < a \<Longrightarrow> a \<le> b \<Longrightarrow> \<lfloor>log 2 a\<rfloor> \<le> \<lfloor>log 2 b\<rfloor>"
  by (intro floor_mono) simp

lemma ulp_exp_mono: "0 < a \<Longrightarrow> a \<le> b \<Longrightarrow> ulp_exp a \<le> ulp_exp b"
  unfolding ulp_exp_def using floor_log_mono[of a b] by linarith

lemma round_pos_nonneg: "0 < a \<Longrightarrow> 0 \<le> round_pos a"
proof -
  assume "0 < a"
  then have "0 \<le> a / 2 powi ulp_exp a" by simp
  then have "rne (of_int 0) \<le> rne (a / 2 powi ulp_exp a)" by (intro rne_mono) simp
  then have "0 \<le> rne (a / 2 powi ulp_exp a)" by (simp only: rne_int)
  then show ?thesis unfolding round_pos_def by (intro mult_nonneg_nonneg) simp_all
qed

lemma rne_half [simp]: "rne (1 / 2) = 0"
  by (simp add: rne_def)

lemma round_pos_upper:
  assumes "0 < a"
  shows "round_pos a \<le> 2 powi (\<lfloor>log 2 a\<rfloor> + 1)"
proof -
  let ?e = "\<lfloor>log 2 a\<rfloor>" and ?u = "ulp_exp a"
  have "a / 2 powi ?u \<le> 2 powi (?e + 1) / 2 powi ?u"
    using binade(2)[OF assms] by (simp add: divide_right_mono)
  also have "\<dots> = 2 powi (?e + 1 - ?u)" by (simp add: power_int_diff)
  finally have q: "a / 2 powi ?u \<le> 2 powi (?e + 1 - ?u)" .
  show ?thesis
  proof (cases "0 \<le> ?e + 1 - ?u")
    case True
    note pn = powi_nat[OF True]
    from q have "a / 2 powi ?u \<le> of_int (2 ^ nat (?e + 1 - ?u))"
      unfolding pn .
    then have "rne (a / 2 powi ?u) \<le> rne (of_int (2 ^ nat (?e + 1 - ?u)))" by (rule rne_mono)
    then have "real_of_int (rne (a / 2 powi ?u)) \<le> of_int (2 ^ nat (?e + 1 - ?u))"
      by (simp only: rne_int of_int_le_iff)
    then have "real_of_int (rne (a / 2 powi ?u)) \<le> 2 powi (?e + 1 - ?u)"
      unfolding pn .
    then have "real_of_int (rne (a / 2 powi ?u)) * 2 powi ?u \<le> 2 powi (?e + 1 - ?u) * 2 powi ?u"
      by (intro mult_right_mono) simp_all
    also have "\<dots> = 2 powi (?e + 1)" by (simp add: power_int_add[symmetric])
    finally show ?thesis by (simp add: round_pos_def)
  next
    case False
    then have "?e + 1 - ?u \<le> - 1" by simp
    then have "(2::real) powi (?e + 1 - ?u) \<le> 2 powi (- 1)"
      by (intro power_int_increasing) simp_all
    moreover have "(2::real) powi (- 1) = 1 / 2" by (simp add: power_int_minus)
    ultimately have "a / 2 powi ?u \<le> 1 / 2" using q by linarith
    then have "rne (a / 2 powi ?u) \<le> rne (1 / 2)" by (rule rne_mono)
    then have "real_of_int (rne (a / 2 powi ?u)) \<le> 0" by simp
    then have "real_of_int (rne (a / 2 powi ?u)) * 2 powi ?u \<le> 0"
      by (intro mult_nonpos_nonneg) simp_all
    also have "(0::real) \<le> 2 powi (?e + 1)" by simp
    finally show ?thesis by (simp add: round_pos_def)
  qed
qed

lemma powi_split: "(2::real) powi e = of_int (2 ^ 52) * 2 powi (e - 52)"
proof -
  have "(2::real) powi e = 2 powi (52 + (e - 52))" by simp
  also have "\<dots> = 2 powi 52 * 2 powi (e - 52)" by (rule power_int_add) simp
  finally show ?thesis by simp
qed

lemma round_pos_lower:
  assumes "0 < a" "- 1022 \<le> \<lfloor>log 2 a\<rfloor>"
  shows "2 powi \<lfloor>log 2 a\<rfloor> \<le> round_pos a"
proof -
  let ?e = "\<lfloor>log 2 a\<rfloor>" and ?u = "ulp_exp a"
  have u: "?u = ?e - 52" unfolding ulp_exp_def using assms(2) by linarith
  have "of_int (2 ^ 52) * 2 powi ?u \<le> a"
    using binade(1)[OF assms(1)] unfolding u powi_split[of ?e] .
  then have "of_int (2 ^ 52) \<le> a / 2 powi ?u"
    by (simp add: pos_le_divide_eq)
  then have "rne (of_int (2 ^ 52)) \<le> rne (a / 2 powi ?u)" by (rule rne_mono)
  then have "2 ^ 52 \<le> rne (a / 2 powi ?u)" by (simp only: rne_int)
  then have "real_of_int (2 ^ 52) \<le> real_of_int (rne (a / 2 powi ?u))" by (simp only: of_int_le_iff)
  then have "real_of_int (2 ^ 52) * 2 powi ?u \<le> real_of_int (rne (a / 2 powi ?u)) * 2 powi ?u"
    by (intro mult_right_mono) simp_all
  then show ?thesis unfolding round_pos_def powi_split[of ?e] u .
qed

lemma round_pos_mono:
  assumes "0 < a" "a \<le> b"
  shows "round_pos a \<le> round_pos b"
proof (cases "ulp_exp a = ulp_exp b")
  case True
  have "a / 2 powi ulp_exp b \<le> b / 2 powi ulp_exp b"
    using assms(2) by (simp add: divide_right_mono)
  then have "rne (a / 2 powi ulp_exp b) \<le> rne (b / 2 powi ulp_exp b)" by (rule rne_mono)
  then show ?thesis unfolding round_pos_def True
    by (intro mult_right_mono) simp_all
next
  case False
  have b: "0 < b" using assms by simp
  from False ulp_exp_mono[OF assms] have lt: "ulp_exp a < ulp_exp b" by simp
  then have eb: "- 1022 \<le> \<lfloor>log 2 b\<rfloor>" and ee: "\<lfloor>log 2 a\<rfloor> + 1 \<le> \<lfloor>log 2 b\<rfloor>"
    unfolding ulp_exp_def by linarith+
  have "round_pos a \<le> 2 powi (\<lfloor>log 2 a\<rfloor> + 1)" by (rule round_pos_upper[OF assms(1)])
  also have "\<dots> \<le> 2 powi \<lfloor>log 2 b\<rfloor>" using ee by (intro power_int_increasing) simp_all
  also have "\<dots> \<le> round_pos b" by (rule round_pos_lower[OF b eb])
  finally show ?thesis .
qed

lemma binary64_mono: "x \<le> y \<Longrightarrow> binary64 x \<le> binary64 y"
  unfolding binary64_def
  using round_pos_mono[of x y] round_pos_mono[of "- y" "- x"]
    round_pos_nonneg[of x] round_pos_nonneg[of y] round_pos_nonneg[of "- x"] round_pos_nonneg[of "- y"]
  by (auto simp: not_less)

lemma to_double_mono: "x \<le> y \<Longrightarrow> js_le (to_double x) (to_double y)"
  using binary64_mono[of x y] by (auto simp: to_double_def)


lemma powi_neg_nat: "(2::real) powi (- int k) = 1 / 2 ^ k"
  by (simp add: power_int_minus inverse_eq_divide)

lemma round_pos_dyadic:
  assumes "0 < m" "m < 2 ^ 53" "k \<le> 1074"
  shows "round_pos (of_int m / 2 ^ k) = of_int m / 2 ^ k"
proof -
  let ?a = "real_of_int m / 2 ^ k"
  let ?e = "\<lfloor>log 2 ?a\<rfloor>" and ?u = "ulp_exp ?a"
  have a: "0 < ?a" using assms(1) by simp
  have a_eq: "?a = of_int m * 2 powi (- int k)" by (simp add: powi_neg_nat)
  have "real_of_int m < 2 ^ 53" using assms(2) by (metis of_int_less_iff of_int_numeral of_int_power)
  then have "?a < 2 ^ 53 / 2 ^ k" by (simp add: divide_strict_right_mono)
  also have "\<dots> = 2 powi (53 - int k)" by (simp add: power_int_diff)
  finally have lt: "2 powi ?e < (2::real) powi (53 - int k)" using binade(1)[OF a] by linarith
  have "?e < 53 - int k"
  proof (rule ccontr)
    assume "\<not> ?e < 53 - int k"
    then have "(2::real) powi (53 - int k) \<le> 2 powi ?e"
      by (intro power_int_increasing) simp_all
    with lt show False by simp
  qed
  then have u: "?u \<le> - int k" unfolding ulp_exp_def using assms(3) by linarith
  then have nn: "0 \<le> - int k - ?u" by linarith
  have "?a / 2 powi ?u = of_int m * (2 powi (- int k) / 2 powi ?u)" by (simp add: a_eq)
  also have "2 powi (- int k) / 2 powi ?u = (2::real) powi (- int k - ?u)" by (simp add: power_int_diff)
  also have "\<dots> = of_int (2 ^ nat (- int k - ?u))" by (rule powi_nat[OF nn])
  finally have q: "?a / 2 powi ?u = of_int (m * 2 ^ nat (- int k - ?u))" by simp
  have "round_pos ?a = of_int (m * 2 ^ nat (- int k - ?u)) * 2 powi ?u"
    unfolding round_pos_def q rne_int ..
  also have "\<dots> = ?a / 2 powi ?u * 2 powi ?u" unfolding q ..
  also have "\<dots> = ?a" by simp
  finally show ?thesis .
qed

lemma binary64_dyadic:
  assumes "\<bar>m\<bar> < 2 ^ 53" "k \<le> 1074"
  shows "binary64 (of_int m / 2 ^ k) = of_int m / 2 ^ k"
proof -
  consider "m = 0" | "0 < m" | "m < 0" by linarith
  then show ?thesis
  proof cases
    case 1
    then show ?thesis by (simp add: binary64_def)
  next
    case 2
    then have "m < 2 ^ 53" using assms(1) by simp
    from round_pos_dyadic[OF 2 this assms(2)] 2 show ?thesis by (simp add: binary64_def)
  next
    case 3
    then have p: "0 < - m" "- m < 2 ^ 53" using assms(1) by simp_all
    have "round_pos (- (of_int m / 2 ^ k)) = - (of_int m / 2 ^ k)"
      using round_pos_dyadic[OF p assms(2)] by simp
    moreover have "real_of_int m / 2 ^ k < 0" using 3 by (simp add: divide_neg_pos)
    ultimately show ?thesis by (simp add: binary64_def)
  qed
qed

lemma to_double_dyadic:
  assumes "\<bar>m\<bar> < 2 ^ 53" "k \<le> 1074"
  shows "to_double (of_int m / 2 ^ k) = Num (of_int m / 2 ^ k)"
proof -
  have "\<bar>real_of_int m\<bar> < 2 ^ 53"
    using assms(1) by (metis of_int_abs of_int_less_iff of_int_numeral of_int_power)
  moreover have "\<bar>real_of_int m / 2 ^ k\<bar> \<le> \<bar>real_of_int m\<bar>"
    by (simp add: field_simps mult_le_cancel_left1 abs_mult)
  moreover have "(2::real) ^ 53 \<le> double_limit"
    unfolding double_limit_def by (rule power_increasing) simp_all
  ultimately have "\<bar>real_of_int m / 2 ^ k\<bar> < double_limit" by linarith
  then have "\<not> double_limit \<le> real_of_int m / 2 ^ k" "\<not> real_of_int m / 2 ^ k \<le> - double_limit"
    by linarith+
  then show ?thesis
    unfolding to_double_def binary64_dyadic[OF assms] by (simp only: if_False)
qed

lemma to_double_int: "\<bar>n\<bar> < 2 ^ 53 \<Longrightarrow> to_double (of_int n) = Num (of_int n)"
  using to_double_dyadic[of n 0] by simp

lemma round_pos_integral:
  assumes "2 ^ 52 \<le> a"
  shows "round_pos a \<in> \<int>"
proof -
  have "(0::real) < 2 ^ 52" by simp
  with assms have a: "0 < a" by linarith
  have "52 \<le> \<lfloor>log 2 a\<rfloor>"
  proof (rule ccontr)
    assume "\<not> 52 \<le> \<lfloor>log 2 a\<rfloor>"
    then have "(2::real) powi (\<lfloor>log 2 a\<rfloor> + 1) \<le> 2 powi 52"
      by (intro power_int_increasing) simp_all
    with binade(2)[OF a] assms show False by simp
  qed
  then have "0 \<le> ulp_exp a" by (simp add: ulp_exp_def)
  then show ?thesis unfolding round_pos_def powi_nat[OF \<open>0 \<le> ulp_exp a\<close>] by simp
qed

lemma to_double_Num_iff:
  "to_double x = Num y \<longleftrightarrow> binary64 x = y \<and> \<not> double_limit \<le> y \<and> \<not> y \<le> - double_limit"
  by (auto simp: to_double_def)

lemma to_double_ceiling:
  assumes "to_double d = Num d"
  shows "to_double (of_int \<lceil>d\<rceil>) = Num (of_int \<lceil>d\<rceil>)"
proof (cases "\<bar>d\<bar> < 2 ^ 52")
  case True
  then have "- 4503599627370496 < d" "d < 4503599627370496" by simp_all
  then have "- 4503599627370496 \<le> \<lceil>d\<rceil>" "\<lceil>d\<rceil> \<le> 4503599627370496" by linarith+
  moreover have "(2::int) ^ 53 = 9007199254740992" by simp
  ultimately have "\<bar>\<lceil>d\<rceil>\<bar> < 2 ^ 53" by linarith
  then show ?thesis by (rule to_double_int)
next
  case False
  from assms have b: "binary64 d = d" by (simp add: to_double_Num_iff)
  have "d \<in> \<int>"
  proof (cases "0 < d")
    case True
    with False have "2 ^ 52 \<le> d" by simp
    from round_pos_integral[OF this] b True show ?thesis by (simp add: binary64_def)
  next
    case neg: False
    with False have "2 ^ 52 \<le> - d" by simp
    note ri = round_pos_integral[OF this]
    from b neg False have "d = - round_pos (- d)"
      by (auto simp: binary64_def split: if_splits)
    then show ?thesis using Ints_minus[OF ri] by simp
  qed
  then have e: "of_int \<lceil>d\<rceil> = d" by (auto elim!: Ints_cases)
  show ?thesis unfolding e by (rule assms)
qed


lemma fl_mul_Num: "fl_mul (Num a) (Num b) = to_double (a * b)"
  by (simp add: fl_mul_def fl_result_def)

lemma fl_div_Num: "b \<noteq> 0 \<Longrightarrow> fl_div (Num a) (Num b) = to_double (a / b)"
  by (simp add: fl_div_def fl_result_def)

lemma fl_sub_Num: "fl_sub (Num a) (Num b) = to_double (a - b)"
  by (simp add: fl_sub_def fl_result_def js_sub_def)

lemma js_le_floor_ge: "js_le (Num (of_int N)) v \<Longrightarrow> js_le (Num (of_int N)) (js_floor v)"
  by (cases v) (simp_all add: le_floor_iff)

lemma js_le_floor_le: "js_le v (Num (of_int N)) \<Longrightarrow> js_le (js_floor v) (Num (of_int N))"
  by (cases v) (simp_all, linarith)

lemma js_floor_mono: "js_le a b \<Longrightarrow> js_le (js_floor a) (js_floor b)"
  by (cases a; cases b) (simp_all add: floor_mono)

text \<open>The numbers of the sample runs are binary64 values.\<close>

lemmas sample_doubles =
  to_double_int[of 1, simplified] to_double_int[of 5, simplified] to_double_int[of 10, simplified]
  to_double_int[of 25, simplified] to_double_int[of 50, simplified]
  to_double_int[of 150, simplified] to_double_int[of 1000, simplified]
  to_double_dyadic[of 1 1, simplified] to_double_dyadic[of 1 2, simplified]
  to_double_dyadic[of 3 6, simplified] to_double_dyadic[of 11 5, simplified]
  to_double_dyadic[of 15 5, simplified] to_double_dyadic[of 75 4, simplified]
  to_double_dyadic[of 165 4, simplified] to_double_dyadic[of 225 4, simplified]
  to_double_dyadic[of 305 5, simplified]

lemma round_pos_normal:
  assumes "2 powi e \<le> a" "a < 2 powi (e + 1)" "- 1022 \<le> e"
  shows "round_pos a = of_int (rne (a / 2 powi (e - 52))) * 2 powi (e - 52)"
proof -
  have "(0::real) < 2 powi e" by simp
  with assms(1) have a: "0 < a" by linarith
  have "2 powr real_of_int e \<le> a" "a < 2 powr real_of_int (e + 1)"
    using assms(1,2) by (simp_all only: powr_powi)
  then have "2 powr real_of_int e \<le> a \<and> a < 2 powr (real_of_int e + 1)" by simp
  then have "\<lfloor>log 2 a\<rfloor> = e"
    using floor_log_eq_powr_iff[of a 2 e] a by simp
  then have "ulp_exp a = e - 52" unfolding ulp_exp_def using assms(3) by linarith
  then show ?thesis by (simp add: round_pos_def)
qed

text \<open>
  The rounding at work: the binary64 value nearest to 7/10 lies below it, and its product
  with 30 rounds to 21, so that 21 frames are shown where the real product has floor 20.
\<close>

lemma seven_tenths: "to_double (7 / 10) = Num (3152519739159347 / 4503599627370496)"
proof -
  have "round_pos (7 / 10) = of_int (rne (7 / 10 / 2 powi (- 1 - 52))) * 2 powi (- 1 - 52)"
    by (rule round_pos_normal) (simp_all add: power_int_minus)
  also have "(7::real) / 10 / 2 powi (- 1 - 52) = 31525197391593472 / 5"
    by (simp add: power_int_minus)
  also have "rne (31525197391593472 / 5) = 6305039478318694"
    by (simp add: rne_def Let_def)
  finally have "binary64 (7 / 10) = 3152519739159347 / 4503599627370496"
    by (simp add: binary64_def power_int_minus)
  moreover have "(3152519739159347 / 4503599627370496 :: real) < 2 ^ 53" by simp
  moreover have "(2::real) ^ 53 \<le> double_limit"
    unfolding double_limit_def by (rule power_increasing) simp_all
  ultimately show ?thesis by (simp add: to_double_def)
qed

lemma seven_tenths_times_30:
  "js_floor (fl_mul (Num (3152519739159347 / 4503599627370496)) (Num 30)) = Num 21"
  and "\<lfloor>(3152519739159347 / 4503599627370496 :: real) * 30\<rfloor> = 20"
proof -
  have "round_pos (3152519739159347 / 4503599627370496 * 30) =
      of_int (rne (3152519739159347 / 4503599627370496 * 30 / 2 powi (4 - 52))) * 2 powi (4 - 52)"
    by (rule round_pos_normal) (simp_all add: power_int_minus)
  also have "(3152519739159347 / 4503599627370496 * 30 :: real) / 2 powi (4 - 52) = 47287796087390205 / 8"
    by (simp add: power_int_minus)
  also have "rne (47287796087390205 / 8) = 5910974510923776"
    by (simp add: rne_def Let_def)
  finally have "binary64 (3152519739159347 / 4503599627370496 * 30) = 21"
    by (simp add: binary64_def power_int_minus)
  moreover have "(21 :: real) < 2 ^ 53" by simp
  moreover have "(2::real) ^ 53 \<le> double_limit"
    unfolding double_limit_def by (rule power_increasing) simp_all
  ultimately have "to_double (3152519739159347 / 4503599627370496 * 30) = Num 21"
    by (simp add: to_double_def)
  then show "js_floor (fl_mul (Num (3152519739159347 / 4503599627370496)) (Num 30)) = Num 21"
    by (simp add: fl_mul_Num)
  show "\<lfloor>(3152519739159347 / 4503599627370496 :: real) * 30\<rfloor> = 20" by simp
qed

section \<open>Facts about a session\<close>

lemma processing_renderFrame:
  "\<not> paused rd \<Longrightarrow> \<not> ended rd \<Longrightarrow>
   processing (renderFrame cl rd i s) =
     \<lparr>isProcessing = True,
      progress = fl_mul (fl_div (currentTime rd) (ss_duration cl)) (Num 100),
      fps = fl_div (js_round (fl_mul (fl_div (currentTime rd)
              (fl_div (fl_sub (clock rd) (ss_startTime cl)) (Num 1000))) (Num 10))) (Num 10),
      processedFrames = js_floor (fl_mul (currentTime rd) (Num 30)),
      totalFrames = js_ceil (ss_duration cl),
      estimatedTimeRemaining = js_round (js_max (Num 0) (fl_sub (ss_duration cl) (currentTime rd)))\<rparr>"
  by (simp add: renderFrame_def Let_def targetFps_def)

lemma abs_bounds_int:
  fixes x n :: int
  shows "\<bar>x + 1\<bar> \<le> 30 * (\<bar>x\<bar> + 1)" and "\<bar>30 * x\<bar> \<le> 30 * (\<bar>x\<bar> + 1)"
    and "\<bar>x\<bar> \<le> 281474976710656 \<Longrightarrow> \<bar>n\<bar> \<le> 30 * (\<bar>x\<bar> + 1) \<Longrightarrow> \<bar>n\<bar> < 9007199254740992"
  by (simp_all add: abs_if split: if_splits)

lemma to_double_small_int:
  assumes "\<bar>d :: real\<bar> \<le> 2 ^ 48" "\<bar>n\<bar> \<le> 30 * (\<bar>\<lceil>d\<rceil>\<bar> + 1)"
  shows "to_double (of_int n) = Num (of_int n)"
proof -
  have "(2::real) ^ 48 = 281474976710656" by simp
  with assms(1) have "- 281474976710656 \<le> d" "d \<le> 281474976710656" by linarith+
  then have "- 281474976710656 \<le> \<lceil>d\<rceil>" "\<lceil>d\<rceil> \<le> 281474976710656" by linarith+
  then have "\<bar>\<lceil>d\<rceil>\<bar> \<le> 281474976710656" by linarith
  from abs_bounds_int(3)[OF this assms(2)] have "\<bar>n\<bar> < 9007199254740992" .
  moreover have "(2::int) ^ 53 = 9007199254740992" by simp
  ultimately have "\<bar>n\<bar> < 2 ^ 53" by linarith
  then show ?thesis by (rule to_double_int)
qed

lemma wait_audio_timer:
  "\<forall>(t, sg) \<in> set sigs. 1000 \<le> t \<Longrightarrow> wait_audio sigs = (TimedOut, 1000)"
  by (cases sigs) (auto simp: audio_timeout_ms_def)

lemma processVideo_started:
  assumes "fst (wait_audio (audio_signals env)) \<noteq> LoadFailed"
    "video_mounted env" "canvas_mounted env" "ctx_available env" "videoUrl s \<noteq> None"
    "isTypeSupported env (select_mimeType (isTypeSupported env))" "metadata_loads env" "play_fulfils env"
  shows "fst (processVideo env s) =
           LoopStarted \<lparr>ss_duration = video_duration env, ss_mimeType = select_mimeType (isTypeSupported env),
                        ss_startTime = clock_when_started env (snd (wait_audio (audio_signals env))),
                        ss_style = style s\<rparr>"
    and "isProcessing (processing (snd (processVideo env s)))"
    and "frame_scheduled (snd (processVideo env s))"
    and "map_option state (mediaRecorderRef (snd (processVideo env s))) = Some Recording"
    and "map_option mimeType (mediaRecorderRef (snd (processVideo env s))) =
           Some (select_mimeType (isTypeSupported env))"
  using assms by (auto simp: processVideo_def Let_def resize_canvas_def split: audio_outcome.splits)

lemma processVideo_LoopStarted:
  assumes "fst (processVideo env s) = LoopStarted cl"
  shows "ss_mimeType cl = select_mimeType (isTypeSupported env)"
    and "map_option mimeType (mediaRecorderRef (snd (processVideo env s))) =
           Some (select_mimeType (isTypeSupported env))"
    and "ss_duration cl = video_duration env"
    and "ss_startTime cl = clock_when_started env (snd (wait_audio (audio_signals env)))"
  using assms by (auto simp: processVideo_def Let_def split: if_splits audio_outcome.splits)

text \<open>The sample session reaches its loop, by way of the timer.\<close>

lemma sample_select: "select_mimeType (isTypeSupported sample_env) = ''video/webm;codecs=vp8,opus''"
  by (simp add: select_mimeType_def sample_env_def)

lemma sample_wait: "wait_audio (audio_signals sample_env) = (TimedOut, 1000)"
  by (simp add: sample_env_def audio_timeout_ms_def)

lemma sample_started: "fst (processVideo sample_env sample_uploaded) = LoopStarted sample_session"
proof -
  have "fst (processVideo sample_env sample_uploaded) =
          LoopStarted \<lparr>ss_duration = video_duration sample_env,
                       ss_mimeType = select_mimeType (isTypeSupported sample_env),
                       ss_startTime = clock_when_started sample_env
                                        (snd (wait_audio (audio_signals sample_env))),
                       ss_style = style sample_uploaded\<rparr>"
    by (rule processVideo_started(1))
      (simp_all add: sample_wait sample_select, simp_all add: sample_env_def sample_uploaded_def handleFileUpload_def)
  then show ?thesis
    by (simp add: sample_select sample_wait sample_session_def)
      (simp add: sample_env_def sample_uploaded_def handleFileUpload_def)
qed

lemma sample_running_eq:
  "sample_running =
     \<lparr>videoUrl = Some (FileURL ''clip.mp4''), processedVideoUrl = None, isPlaying = False,
      style = style initial_state,
      processing = \<lparr>isProcessing = True, progress = Num 0, fps = Num 0, processedFrames = Num 0,
                    totalFrames = Num 10, estimatedTimeRemaining = Num 10\<rparr>,
      canvas = default_ctx, canvas_width = Num 640, canvas_height = Num 360,
      animationRef = Some 1, frame_scheduled = True,
      mediaRecorderRef = Some \<lparr>mimeType = ''video/webm;codecs=vp8,opus'', videoBitsPerSecond = 8000000,
                                audioBitsPerSecond = 128000, state = Recording,
                                timeslice = Some 100, stop_queued = False\<rparr>,
      recordedChunksRef = [], streamRef = Some True, audioElementRef = Some True,
      audioContextRef = Some True\<rparr>"
  unfolding sample_running_def processVideo_def Let_def sample_wait sample_select
  by (simp add: sample_env_def sample_uploaded_def handleFileUpload_def initial_state_def
      resize_canvas_def)

lemmas session_simps =
  sample_running_eq sample_session_def playing_at_def renderFrame_def Let_def
  ondataavailable_def cancelProcessing_def recorder_stop_def onstop_def

lemma fps_one_decimal:
  assumes "fl_div (js_round X) (Num 10) = Num f"
  shows "\<exists>n::int. f = binary64 (of_int n / 10)"
  using assms by (cases X) (auto simp: fl_div_def fl_result_def to_double_Num_iff)

lemma eta_whole:
  assumes "js_round (js_max (Num 0) Y) = Num e"
  shows "(\<exists>n::int. e = of_int n \<and> 0 \<le> n) \<and> (\<forall>r. js_max (Num 0) Y = Num r \<longrightarrow> \<bar>e - r\<bar> \<le> 1 / 2)"
proof (cases Y)
  case (Num y)
  with assms have e: "e = of_int \<lfloor>max 0 y + 1 / 2\<rfloor>" by auto
  have "0 \<le> \<lfloor>max 0 y + 1 / 2\<rfloor>" by simp
  moreover have "\<bar>real_of_int \<lfloor>max 0 y + 1 / 2\<rfloor> - max 0 y\<bar> \<le> 1 / 2" by linarith
  ultimately show ?thesis using e Num by auto
qed (use assms in auto)

section \<open>Facts about the drawing surface\<close>

lemma painted_simps [simp]:
  "painted (set_strokeStyle_white a c) = painted c"
  "painted (set_lineWidth a c) = painted c"
  "painted (beginPath c) = painted c"
  "painted (moveTo x y c) = painted c"
  "painted (lineTo x y c) = painted c"
  "painted (stroke c) = painted c @ [Stroke (path c) (strokeStyle c) (lineWidth c)]"
  by (cases a; simp add: beginPath_def moveTo_def lineTo_def stroke_def)+

lemma strokeStyle_simps [simp]:
  "strokeStyle (set_lineWidth a c) = strokeStyle c"
  "strokeStyle (beginPath c) = strokeStyle c"
  "strokeStyle (moveTo x y c) = strokeStyle c"
  "strokeStyle (lineTo x y c) = strokeStyle c"
  "strokeStyle (stroke c) = strokeStyle c"
  by (cases a; simp add: beginPath_def moveTo_def lineTo_def stroke_def)+

lemma lineWidth_simps [simp]:
  "lineWidth (set_strokeStyle_white a c) = lineWidth c"
  "lineWidth (beginPath c) = lineWidth c"
  "lineWidth (moveTo x y c) = lineWidth c"
  "lineWidth (lineTo x y c) = lineWidth c"
  "lineWidth (stroke c) = lineWidth c"
  by (cases a; simp add: beginPath_def moveTo_def lineTo_def stroke_def)+

lemma path_segment:
  "path (lineTo a b (moveTo x y (beginPath c))) = path (lineTo a b (moveTo x y (beginPath c')))"
  by (simp add: beginPath_def moveTo_def lineTo_def)

lemma path_stroke [simp]: "path (stroke c) = path c"
  by (simp add: stroke_def)

lemma stroke_line:
  "stroke (lineTo a b (moveTo x y (beginPath c))) =
     c\<lparr>path := path (lineTo a b (moveTo x y (beginPath default_ctx))),
       painted := painted c @ [Stroke (path (lineTo a b (moveTo x y (beginPath default_ctx))))
                                 (strokeStyle c) (lineWidth c)]\<rparr>"
  by (simp add: beginPath_def moveTo_def lineTo_def stroke_def default_ctx_def)

lemma styled:
  assumes "lineThickness cfg = Num th" "0 < th" "lineOpacity cfg = Num op"
  shows "set_lineWidth (lineThickness cfg) (set_strokeStyle_white (js_div (lineOpacity cfg) (Num 100)) c)
     = c\<lparr>strokeStyle := RGBA 255 255 255 (min 1 (max 0 (op / 100))), lineWidth := Num th\<rparr>"
  using assms by simp

lemma drawLines_painted:
  assumes "lineThickness cfg = Num th" "0 < th" "lineOpacity cfg = Num op"
  shows "painted (drawLines cfg W H P c) = painted c @ painted (drawLines cfg W H P default_ctx)"
    and "strokeStyle (drawLines cfg W H P c) = RGBA 255 255 255 (min 1 (max 0 (op / 100)))"
    and "lineWidth (drawLines cfg W H P c) = Num th"
  unfolding drawLines_def Let_def styled[OF assms] stroke_line
  by (simp_all add: default_ctx_def)

section \<open>The bounce as a real function\<close>

lemma sin_pos_first_half: "0 < p \<Longrightarrow> p < 1 / 2 \<Longrightarrow> 0 < sin (p * pi * 2)"
  by (rule sin_gt_zero) (auto simp: field_simps)

lemma sin_neg_second_half: "1 / 2 < p \<Longrightarrow> p < 1 \<Longrightarrow> sin (p * pi * 2) < 0"
  by (rule sin_lt_zero) (auto simp: field_simps)

lemma deriv_sin_scaled:
  "((\<lambda>q. sin (q * pi * 2) * w) has_real_derivative cos (p * pi * 2) * (pi * 2) * w) (at p)"
  by (auto intro!: derivative_eq_intros)

lemma deriv_first_half:
  assumes "0 < p" "p < 1 / 2"
  shows "((\<lambda>q. \<bar>sin (q * pi * 2)\<bar> * w) has_real_derivative cos (p * pi * 2) * (pi * 2) * w) (at p)"
proof -
  have "eventually (\<lambda>q. q \<in> {0 <..< 1 / 2}) (nhds p)"
    using assms by (intro eventually_nhds_in_open) auto
  then have ev: "eventually (\<lambda>q. \<bar>sin (q * pi * 2)\<bar> * w = sin (q * pi * 2) * w) (nhds p)"
    by eventually_elim (use sin_pos_first_half in \<open>auto simp: abs_of_pos\<close>)
  show ?thesis
    by (rule iffD2[OF DERIV_cong_ev[OF refl ev refl] deriv_sin_scaled])
qed

lemma deriv_second_half:
  assumes "1 / 2 < p" "p < 1"
  shows "((\<lambda>q. \<bar>sin (q * pi * 2)\<bar> * w) has_real_derivative - (cos (p * pi * 2) * (pi * 2) * w)) (at p)"
proof -
  have "eventually (\<lambda>q. q \<in> {1 / 2 <..< 1}) (nhds p)"
    using assms by (intro eventually_nhds_in_open) auto
  then have ev: "eventually (\<lambda>q. \<bar>sin (q * pi * 2)\<bar> * w = - (sin (q * pi * 2) * w)) (nhds p)"
    by eventually_elim (use sin_neg_second_half in \<open>auto simp: abs_of_neg\<close>)
  have "((\<lambda>q. - (sin (q * pi * 2) * w)) has_real_derivative - (cos (p * pi * 2) * (pi * 2) * w)) (at p)"
    by (rule DERIV_minus) (rule deriv_sin_scaled)
  then show ?thesis
    by (rule iffD2[OF DERIV_cong_ev[OF refl ev refl]])
qed

lemma deriv_right_of_half: "((\<lambda>q. \<bar>sin (q * pi * 2)\<bar> * w) has_real_derivative 2 * pi * w) (at_right (1 / 2))"
proof -
  have "eventually (\<lambda>q. q \<in> {1 / 2 <..< 1}) (at_right (1 / 2 :: real))"
    by (rule eventually_at_right_real) simp
  then have ev: "eventually (\<lambda>q. \<bar>sin (q * pi * 2)\<bar> * w = - (sin (q * pi * 2) * w)) (at_right (1 / 2))"
    by eventually_elim (use sin_neg_second_half in \<open>auto simp: abs_of_neg\<close>)
  have at: "\<bar>sin (1 / 2 * pi * 2)\<bar> * w = - (sin (1 / 2 * pi * 2) * w)" by simp
  have "((\<lambda>q. - (sin (q * pi * 2) * w)) has_real_derivative - (cos (1 / 2 * pi * 2) * (pi * 2) * w)) (at (1 / 2))"
    by (rule DERIV_minus) (rule deriv_sin_scaled)
  then have "((\<lambda>q. - (sin (q * pi * 2) * w)) has_real_derivative 2 * pi * w) (at (1 / 2))"
    by (simp add: mult.commute)
  then have "((\<lambda>q. - (sin (q * pi * 2) * w)) has_real_derivative 2 * pi * w) (at_right (1 / 2))"
    by (rule has_field_derivative_at_within)
  then show ?thesis
    by (rule iffD2[OF has_field_derivative_cong_eventually[OF ev at]])
qed

lemma deriv_left_of_half: "((\<lambda>q. \<bar>sin (q * pi * 2)\<bar> * w) has_real_derivative - (2 * pi * w)) (at_left (1 / 2))"
proof -
  have "eventually (\<lambda>q. q \<in> {0 <..< 1 / 2}) (at_left (1 / 2 :: real))"
    by (rule eventually_at_left_real) simp
  then have ev: "eventually (\<lambda>q. \<bar>sin (q * pi * 2)\<bar> * w = sin (q * pi * 2) * w) (at_left (1 / 2))"
    by eventually_elim (use sin_pos_first_half in \<open>auto simp: abs_of_pos\<close>)
  have at: "\<bar>sin (1 / 2 * pi * 2)\<bar> * w = sin (1 / 2 * pi * 2) * w" by simp
  have "((\<lambda>q. sin (q * pi * 2) * w) has_real_derivative cos (1 / 2 * pi * 2) * (pi * 2) * w) (at (1 / 2))"
    by (rule deriv_sin_scaled)
  then have "((\<lambda>q. sin (q * pi * 2) * w) has_real_derivative - (2 * pi * w)) (at (1 / 2))"
    by (simp add: mult.commute)
  then have "((\<lambda>q. sin (q * pi * 2) * w) has_real_derivative - (2 * pi * w)) (at_left (1 / 2))"
    by (rule has_field_derivative_at_within)
  then show ?thesis
    by (rule iffD2[OF has_field_derivative_cong_eventually[OF ev at]])
qed

lemma one_sided_unique:
  fixes g :: "real \<Rightarrow> real"
  assumes "(g has_real_derivative D) (at x within S)" "(g has_real_derivative E) (at x within S)"
    "\<not> trivial_limit (at x within S)"
  shows "D = E"
  using assms unfolding has_field_derivative_iff by (metis tendsto_unique)

lemma no_deriv_at_half:
  assumes "w \<noteq> 0"
  shows "\<not> ((\<lambda>q. \<bar>sin (q * pi * 2)\<bar> * w) has_real_derivative D) (at (1 / 2))"
proof
  assume d: "((\<lambda>q. \<bar>sin (q * pi * 2)\<bar> * w) has_real_derivative D) (at (1 / 2))"
  have "D = 2 * pi * w"
    by (rule one_sided_unique[OF has_field_derivative_at_within[OF d] deriv_right_of_half]) simp
  moreover have "D = - (2 * pi * w)"
    by (rule one_sided_unique[OF has_field_derivative_at_within[OF d] deriv_left_of_half]) simp
  ultimately show False using assms by simp
qed

lemma f_cont: "continuous_on UNIV (\<lambda>q. \<bar>sin (q * pi * 2)\<bar> * w)"
  by (intro continuous_intros)

lemma deriv_quarter: "((\<lambda>q. \<bar>sin (q * pi * 2)\<bar> * w) has_real_derivative 0) (at (1 / 4))"
  using deriv_first_half[of "1 / 4" w] by simp

lemma deriv_three_quarters: "((\<lambda>q. \<bar>sin (q * pi * 2)\<bar> * w) has_real_derivative 0) (at (3 / 4))"
proof -
  have "(3 / 4 :: real) * pi * 2 = 3 / 2 * pi" by simp
  then have "cos (3 / 4 * pi * 2) = 0" by (simp only: cos_3over2_pi)
  then show ?thesis using deriv_second_half[of "3 / 4" w] by simp
qed

lemma bounce_Num: "bounce (Num p) (Num w) = Num (\<bar>sin (p * pi * 2)\<bar> * w)"
  by (simp add: bounce_def Math_PI_def)

lemma bounce_real: "(\<lambda>q. finite_val (bounce (Num q) (Num w))) = (\<lambda>q. \<bar>sin (q * pi * 2)\<bar> * w)"
  by (simp add: bounce_Num)

lemma vertical_stroke:
  assumes "showVertical cfg"
  shows "\<exists>st lw. painted (drawLines cfg (Num w) (Num h) (Num p) c) ! length (painted c) =
           Stroke [[(Num (\<bar>sin (p * pi * 2)\<bar> * w), Num 0), (Num (\<bar>sin (p * pi * 2)\<bar> * w), Num h)]] st lw"
  unfolding drawLines_def Let_def stroke_line
  using assms
  by (simp add: nth_append bounce_Num moveTo_def lineTo_def beginPath_def default_ctx_def)

section \<open>Cancellation (C1)\<close>

text \<open>
  Claim C1, at a run where the code departs from it. The sample session is cancelled
  after one frame and one chunk, well before its ten seconds have played. Until the click
  the Cancel button is rendered; right after it the page looks idle, with the Process
  Video button rendered. Once the recorder's \<^verbatim>\<open>stop\<close> event has been delivered, the stop
  handler has published an output artifact made of the one chunk and set the progress to
  100; the download panel with its message of success is rendered, and neither the
  Process Video button nor the upload field is.
\<close>

theorem cancelled_session_has_artifact:
  "shows_cancel_button
     (run sample_session sample_running
        [AnimationFrame (playing_at (5 / 2) 3500) 2, DataAvailable [1, 2, 3]]) \<and>
   shows_process_button
     (run sample_session sample_running
        [AnimationFrame (playing_at (5 / 2) 3500) 2, DataAvailable [1, 2, 3], CancelClick]) \<and>
   processedVideoUrl
     (run sample_session sample_running
        [AnimationFrame (playing_at (5 / 2) 3500) 2, DataAvailable [1, 2, 3], CancelClick, StopEvent]) =
     Some (BlobURL [[1, 2, 3]] ''video/webm;codecs=vp8,opus'') \<and>
   progress (processing
     (run sample_session sample_running
        [AnimationFrame (playing_at (5 / 2) 3500) 2, DataAvailable [1, 2, 3], CancelClick, StopEvent])) =
     Num 100 \<and>
   shows_download
     (run sample_session sample_running
        [AnimationFrame (playing_at (5 / 2) 3500) 2, DataAvailable [1, 2, 3], CancelClick, StopEvent]) \<and>
   \<not> shows_process_button
     (run sample_session sample_running
        [AnimationFrame (playing_at (5 / 2) 3500) 2, DataAvailable [1, 2, 3], CancelClick, StopEvent]) \<and>
   \<not> shows_upload
     (run sample_session sample_running
        [AnimationFrame (playing_at (5 / 2) 3500) 2, DataAvailable [1, 2, 3], CancelClick, StopEvent])"
  by (simp add: session_simps shows_cancel_button_def shows_process_button_def
      shows_download_def shows_upload_def)

section \<open>Progress over a session (C2)\<close>

text \<open>
  Claim C2, at a run where the code departs from it. The sample session is cancelled
  after frames at 2.5 and 5 seconds, with chunks arriving in between. The progress after
  each event: 25 and 50 from the two frames, left alone by the chunks and by the click on
  Cancel, and 100 once the \<^verbatim>\<open>stop\<close> event of the cancelled recorder has been delivered.
\<close>

theorem cancelled_session_progress_100:
  "progress_trace sample_session sample_running
     [AnimationFrame (playing_at (5 / 2) 3500) 2, DataAvailable [1, 2, 3],
      AnimationFrame (playing_at 5 6000) 3, DataAvailable [4, 5],
      CancelClick, DataAvailable [6], StopEvent] =
   [Num 25, Num 25, Num 50, Num 50, Num 50, Num 50, Num 100]"
  by (simp add: session_simps fl_mul_Num fl_div_Num sample_doubles)

section \<open>The guarded division (C3)\<close>

text \<open>
  Claim C3, as the code has it. When the duration is 0 the divisor is replaced by 1, so
  the progress computed in a loop iteration is the current time itself (a finite number,
  no division by zero); for a positive duration it is the current time over the duration.
  The compositor loop hands exactly this value to the overlay renderer.
\<close>

theorem frame_progress_guard:
  "frame_progress (Num t) (Num 0) = Num t \<and>
   (0 < d \<longrightarrow> frame_progress (Num t) (Num d) = Num (t / d)) \<and>
   (\<not> paused rd \<and> \<not> ended rd \<and> currentTime rd = Num t \<and> duration rd = Num 0 \<longrightarrow>
      canvas (renderFrame cl rd i s) =
        drawLines (ss_style cl) (canvas_width s) (canvas_height s) (Num t)
          (drawImage (Num t) (canvas_width s) (canvas_height s) (canvas s)))"
  by (simp add: frame_progress_Num renderFrame_def Let_def)

text \<open>
  Three seconds into a clip of duration 0, and into one of four seconds.
\<close>

theorem frame_progress_guard_witness:
  "frame_progress (Num 3) (Num 0) = Num 3 \<and>
   frame_progress (Num 3) (Num 4) = Num (3 / 4) \<and>
   canvas (renderFrame sample_session
      \<lparr>currentTime = Num 3, duration = Num 0, paused = False, ended = False, clock = Num 5\<rparr>
      2 sample_running) =
     drawLines (ss_style sample_session) (canvas_width sample_running) (canvas_height sample_running)
       (Num 3)
       (drawImage (Num 3) (canvas_width sample_running) (canvas_height sample_running)
          (canvas sample_running))"
  using frame_progress_guard[of 3 4
      "\<lparr>currentTime = Num 3, duration = Num 0, paused = False, ended = False, clock = Num 5\<rparr>"
      sample_session 2 sample_running]
  by simp

text \<open>
  Against C3 as stated: at duration 0 and current time 0 the progress is 0, not 1.
\<close>

theorem frame_progress_zero_duration_not_one:
  "frame_progress (Num 0) (Num 0) = Num 0 \<and> frame_progress (Num 0) (Num 0) \<noteq> Num 1"
  by (simp add: frame_progress_Num)

section \<open>The per-frame update (C4)\<close>

text \<open>
  Claim C4, as the code has it. An iteration that finds the video neither paused nor ended
  sets the processing state to: active; progress the current time over the duration, times
  100; throughput the current time over the elapsed seconds, times 10, rounded to an
  integer, over 10; frames done the floor of the current time times 30; frames total the
  ceiling of the duration; remaining time \<open>max 0 (duration - currentTime)\<close> rounded to
  the nearest integer. The elapsed seconds are the clock minus the start time, over 1000,
  and every product, quotient and difference is that of the language. So a finite
  throughput is a whole number of tenths, as near as a binary64 value gets to one, and a
  finite remaining time is a whole number, never negative, within 1/2 of the unrounded
  one.
\<close>

theorem renderFrame_metrics:
  assumes "\<not> paused rd" "\<not> ended rd"
  shows "processing (renderFrame cl rd i s) =
     \<lparr>isProcessing = True,
      progress = fl_mul (fl_div (currentTime rd) (ss_duration cl)) (Num 100),
      fps = fl_div (js_round (fl_mul (fl_div (currentTime rd)
              (fl_div (fl_sub (clock rd) (ss_startTime cl)) (Num 1000))) (Num 10))) (Num 10),
      processedFrames = js_floor (fl_mul (currentTime rd) (Num 30)),
      totalFrames = js_ceil (ss_duration cl),
      estimatedTimeRemaining = js_round (js_max (Num 0) (fl_sub (ss_duration cl) (currentTime rd)))\<rparr> \<and>
     (\<forall>f. fps (processing (renderFrame cl rd i s)) = Num f \<longrightarrow>
          (\<exists>n::int. f = binary64 (of_int n / 10))) \<and>
     (\<forall>e. estimatedTimeRemaining (processing (renderFrame cl rd i s)) = Num e \<longrightarrow>
          (\<exists>n::int. e = of_int n \<and> 0 \<le> n) \<and>
          (\<forall>r. js_max (Num 0) (fl_sub (ss_duration cl) (currentTime rd)) = Num r \<longrightarrow>
               \<bar>e - r\<bar> \<le> 1 / 2))"
  unfolding processing_renderFrame[OF assms]
  using fps_one_decimal eta_whole by simp

text \<open>
  The sample session 15/32 of a second into the clip, one second after its start.
\<close>

theorem renderFrame_metrics_witness:
  "processing (renderFrame sample_session (playing_at (15 / 32) 2000) 2 sample_running) =
     \<lparr>isProcessing = True, progress = Num (75 / 16), fps = Num (1 / 2),
      processedFrames = Num 14, totalFrames = Num 10, estimatedTimeRemaining = Num 10\<rparr>"
proof -
  have a: "\<not> paused (playing_at (15 / 32) 2000)" "\<not> ended (playing_at (15 / 32) 2000)"
    by (simp_all add: playing_at_def)
  show ?thesis
    using renderFrame_metrics[OF a, of sample_session 2 sample_running]
    by (simp add: playing_at_def sample_session_def fl_mul_Num fl_div_Num fl_sub_Num sample_doubles)
qed

text \<open>
  Against C4 as stated: there the throughput shown is 1/2 and not the quotient 15/32, and
  the remaining time shown is 10 and not 305/32.
\<close>

theorem renderFrame_rounds_fps_and_eta:
  "fps (processing (renderFrame sample_session (playing_at (15 / 32) 2000) 2 sample_running)) =
     Num (1 / 2) \<and>
   fl_div (Num (15 / 32)) (fl_div (fl_sub (Num 2000) (Num 1000)) (Num 1000)) = Num (15 / 32) \<and>
   estimatedTimeRemaining
     (processing (renderFrame sample_session (playing_at (15 / 32) 2000) 2 sample_running)) = Num 10 \<and>
   js_max (Num 0) (fl_sub (Num 10) (Num (15 / 32))) = Num (305 / 32)"
  by (simp add: processing_renderFrame playing_at_def sample_session_def
      fl_mul_Num fl_div_Num fl_sub_Num sample_doubles)

section \<open>The vertical line (C5)\<close>

text \<open>
  Claim C5, as the code has it. With the vertical line enabled, the first stroke that the
  overlay renderer adds runs from the top to the bottom of the surface at
  \<open>x = \<bar>sin (2 * pi * p)\<bar> * width\<close>. As a function of \<open>p\<close> this position is continuous
  everywhere and differentiable at every \<open>p\<close> strictly between 0 and 1 other than 1/2; at
  \<open>p = 1/2\<close> its slope is \<open>- 2 * pi * width\<close> from the left and \<open>2 * pi * width\<close> from the
  right, so for a width other than 0 that is the one cusp inside the interval.
\<close>

theorem vertical_line_position:
  "(showVertical cfg \<longrightarrow>
      (\<exists>st lw. painted (drawLines cfg (Num w) (Num h) (Num p) c) ! length (painted c) =
         Stroke [[(Num (\<bar>sin (p * pi * 2)\<bar> * w), Num 0), (Num (\<bar>sin (p * pi * 2)\<bar> * w), Num h)]] st lw)) \<and>
   bounce (Num p) (Num w) = Num (\<bar>sin (p * pi * 2)\<bar> * w) \<and>
   continuous_on UNIV (\<lambda>q. finite_val (bounce (Num q) (Num w))) \<and>
   (0 < p \<and> p < 1 \<and> p \<noteq> 1 / 2 \<longrightarrow>
      (\<exists>D. ((\<lambda>q. finite_val (bounce (Num q) (Num w))) has_real_derivative D) (at p))) \<and>
   ((\<lambda>q. finite_val (bounce (Num q) (Num w))) has_real_derivative - (2 * pi * w)) (at_left (1 / 2)) \<and>
   ((\<lambda>q. finite_val (bounce (Num q) (Num w))) has_real_derivative 2 * pi * w) (at_right (1 / 2)) \<and>
   (w \<noteq> 0 \<longrightarrow>
      \<not> (\<exists>D. ((\<lambda>q. finite_val (bounce (Num q) (Num w))) has_real_derivative D) (at (1 / 2))))"
  unfolding bounce_real
proof (intro conjI impI)
  show "\<exists>st lw. painted (drawLines cfg (Num w) (Num h) (Num p) c) ! length (painted c) =
         Stroke [[(Num (\<bar>sin (p * pi * 2)\<bar> * w), Num 0), (Num (\<bar>sin (p * pi * 2)\<bar> * w), Num h)]] st lw"
    if "showVertical cfg" using that by (rule vertical_stroke)
  show "bounce (Num p) (Num w) = Num (\<bar>sin (p * pi * 2)\<bar> * w)" by (rule bounce_Num)
  show "continuous_on UNIV (\<lambda>q. \<bar>sin (q * pi * 2)\<bar> * w)" by (rule f_cont)
  show "\<exists>D. ((\<lambda>q. \<bar>sin (q * pi * 2)\<bar> * w) has_real_derivative D) (at p)"
    if "0 < p \<and> p < 1 \<and> p \<noteq> 1 / 2"
  proof (cases "p < 1 / 2")
    case True
    then show ?thesis using that deriv_first_half[of p w] by blast
  next
    case False
    then have "1 / 2 < p" using that by simp
    then show ?thesis using that deriv_second_half[of p w] by blast
  qed
  show "((\<lambda>q. \<bar>sin (q * pi * 2)\<bar> * w) has_real_derivative - (2 * pi * w)) (at_left (1 / 2))"
    by (rule deriv_left_of_half)
  show "((\<lambda>q. \<bar>sin (q * pi * 2)\<bar> * w) has_real_derivative 2 * pi * w) (at_right (1 / 2))"
    by (rule deriv_right_of_half)
  show "\<not> (\<exists>D. ((\<lambda>q. \<bar>sin (q * pi * 2)\<bar> * w) has_real_derivative D) (at (1 / 2)))" if "w \<noteq> 0"
    using no_deriv_at_half[OF that] by blast
qed

text \<open>
  The default style on a surface of 640 by 360 at a quarter of the clip.
\<close>

theorem vertical_line_position_witness:
  "(\<exists>st lw. painted (drawLines (style initial_state) (Num 640) (Num 360) (Num (1 / 4)) default_ctx) ! 0 =
      Stroke [[(Num 640, Num 0), (Num 640, Num 360)]] st lw) \<and>
   bounce (Num (1 / 4)) (Num 640) = Num 640 \<and>
   (\<exists>D. ((\<lambda>q. finite_val (bounce (Num q) (Num 640))) has_real_derivative D) (at (1 / 4))) \<and>
   \<not> (\<exists>D. ((\<lambda>q. finite_val (bounce (Num q) (Num 640))) has_real_derivative D) (at (1 / 2)))"
proof -
  have a: "showVertical (style initial_state)" "painted default_ctx = []"
    by (simp_all add: initial_state_def default_ctx_def)
  have b: "sin (pi / 2) = 1" "\<bar>sin (1 / 4 * pi * 2)\<bar> * 640 = (640::real)" by simp_all
  show ?thesis
    using vertical_line_position[of "style initial_state" 640 360 "1 / 4" default_ctx] a b
    by simp
qed

text \<open>
  Against C5 as stated: on a surface 640 wide the position has slope 0 at \<open>p = 1/4\<close> and at
  \<open>p = 3/4\<close> (no cusps there), and different one-sided slopes at \<open>p = 1/2\<close> (a cusp
  there).
\<close>

theorem vertical_line_cusp_at_half:
  "((\<lambda>q. finite_val (bounce (Num q) (Num 640))) has_real_derivative 0) (at (1 / 4)) \<and>
   ((\<lambda>q. finite_val (bounce (Num q) (Num 640))) has_real_derivative 0) (at (3 / 4)) \<and>
   ((\<lambda>q. finite_val (bounce (Num q) (Num 640))) has_real_derivative - (2 * pi * 640)) (at_left (1 / 2)) \<and>
   ((\<lambda>q. finite_val (bounce (Num q) (Num 640))) has_real_derivative 2 * pi * 640) (at_right (1 / 2))"
  unfolding bounce_real
  by (intro conjI deriv_quarter deriv_three_quarters deriv_left_of_half deriv_right_of_half)

section \<open>Calling the renderer twice (C6)\<close>

text \<open>
  Claim C6, as the code has it. With a thickness and an opacity in the range of the
  controls, the strokes that a call adds and the stroke style and line width that it
  leaves depend on its arguments only, not on the context it is given: no state is carried
  from one call to the next. A second call with the same arguments therefore adds the same
  strokes once more, on top of those of the first.
\<close>

theorem drawLines_no_hidden_state:
  assumes "lineThickness cfg = Num th" "0 < th" "lineOpacity cfg = Num op"
  shows "painted (drawLines cfg W H P c) = painted c @ painted (drawLines cfg W H P default_ctx) \<and>
     strokeStyle (drawLines cfg W H P c) = strokeStyle (drawLines cfg W H P default_ctx) \<and>
     lineWidth (drawLines cfg W H P c) = lineWidth (drawLines cfg W H P default_ctx) \<and>
     painted (drawLines cfg W H P (drawLines cfg W H P c)) =
       painted c @ painted (drawLines cfg W H P default_ctx) @ painted (drawLines cfg W H P default_ctx)"
proof (intro conjI)
  note dp = drawLines_painted[OF assms]
  show 1: "painted (drawLines cfg W H P c) = painted c @ painted (drawLines cfg W H P default_ctx)"
    by (rule dp(1))
  show "strokeStyle (drawLines cfg W H P c) = strokeStyle (drawLines cfg W H P default_ctx)"
    by (simp only: dp(2))
  show "lineWidth (drawLines cfg W H P c) = lineWidth (drawLines cfg W H P default_ctx)"
    by (simp only: dp(3))
  show "painted (drawLines cfg W H P (drawLines cfg W H P c)) =
       painted c @ painted (drawLines cfg W H P default_ctx) @ painted (drawLines cfg W H P default_ctx)"
    using dp(1)[of W H P "drawLines cfg W H P c"] 1 by simp
qed

text \<open>
  The default style, twice, on an empty surface of 640 by 360.
\<close>

theorem drawLines_no_hidden_state_witness:
  "painted (drawLines (style initial_state) (Num 640) (Num 360) (Num 0)
      (drawLines (style initial_state) (Num 640) (Num 360) (Num 0) default_ctx)) =
     [Stroke [[(Num 0, Num 0), (Num 0, Num 360)]] (RGBA 255 255 255 (7 / 10)) (Num 2),
      Stroke [[(Num 0, Num 0), (Num 0, Num 360)]] (RGBA 255 255 255 (7 / 10)) (Num 2)] \<and>
   strokeStyle (drawLines (style initial_state) (Num 640) (Num 360) (Num 0)
      (drawLines (style initial_state) (Num 640) (Num 360) (Num 0) default_ctx)) =
     RGBA 255 255 255 (7 / 10)"
proof -
  have a: "lineThickness (style initial_state) = Num 2" "0 < (2::real)"
    "lineOpacity (style initial_state) = Num 70"
    by (simp_all add: initial_state_def)
  have b: "painted default_ctx = []" by (simp add: default_ctx_def)
  have c: "drawLines (style initial_state) (Num 640) (Num 360) (Num 0) default_ctx =
      \<lparr>strokeStyle = RGBA 255 255 255 (7 / 10), lineWidth = Num 2,
       path = [[(Num 0, Num 0), (Num 0, Num 360)]],
       painted = [Stroke [[(Num 0, Num 0), (Num 0, Num 360)]] (RGBA 255 255 255 (7 / 10)) (Num 2)]\<rparr>"
    by (simp add: drawLines_def Let_def initial_state_def default_ctx_def
      bounce_def Math_PI_def beginPath_def moveTo_def lineTo_def stroke_def)
  show ?thesis
    using drawLines_no_hidden_state[OF a, of "Num 640" "Num 360" "Num 0"
        "drawLines (style initial_state) (Num 640) (Num 360) (Num 0) default_ctx"]
    by (simp add: c)
qed

text \<open>
  Against C6 as stated: with the default style (opacity 70 percent) a pixel inside the
  vertical line shows the overlay with opacity 7/10 after one call and 91/100 after two.
\<close>

theorem drawLines_twice_more_opaque:
  "overlay_opacity (\<lambda>op. 1) (drawLines (style initial_state) (Num 640) (Num 360) (Num 0) default_ctx)
     = 7 / 10 \<and>
   overlay_opacity (\<lambda>op. 1)
     (drawLines (style initial_state) (Num 640) (Num 360) (Num 0)
        (drawLines (style initial_state) (Num 640) (Num 360) (Num 0) default_ctx))
     = 91 / 100"
  by (simp add: overlay_opacity_def drawLines_def Let_def initial_state_def default_ctx_def
      bounce_def Math_PI_def beginPath_def moveTo_def lineTo_def stroke_def)

section \<open>Waiting for the audio (C7)\<close>

text \<open>
  Claim C7, as the code has it. The start-up waits for the audio element until the first
  of its readiness signal and a timer of 1000 ms. With no signal before the timer, the call
  goes on exactly as with an audio element that never signals, is not rejected on account
  of the audio, and a session that starts has waited 1000 ms. With a readiness signal
  after \<open>t < 1000\<close> ms it goes on to the same state, having waited \<open>t\<close> ms, whatever
  the element signals later. A load error before both rejects the call. On the timer's
  path the session is running (processing active, recorder recording, render loop
  scheduled) when the rest of the start-up succeeds: elements mounted, a source loaded, a
  supported type, the hidden video's metadata, both \<^verbatim>\<open>play()\<close> promises fulfilled.
\<close>

theorem audio_wait_first_settles:
  "((\<forall>(t', sg) \<in> set (audio_signals env). 1000 \<le> t') \<longrightarrow>
      processVideo env s = processVideo (env\<lparr>audio_signals := []\<rparr>) s \<and>
      fst (processVideo env s) \<noteq> AudioRejected \<and>
      (\<forall>cl. fst (processVideo env s) = LoopStarted cl \<longrightarrow>
            ss_startTime cl = clock_when_started env 1000)) \<and>
   (t < 1000 \<longrightarrow>
      fst (processVideo (env\<lparr>audio_signals := (t, CanPlayThrough) # rest\<rparr>) s) \<noteq> AudioRejected \<and>
      (\<forall>cl. fst (processVideo (env\<lparr>audio_signals := (t, CanPlayThrough) # rest\<rparr>) s) = LoopStarted cl \<longrightarrow>
            ss_startTime cl = clock_when_started env t) \<and>
      snd (processVideo (env\<lparr>audio_signals := (t, CanPlayThrough) # rest\<rparr>) s) =
        snd (processVideo (env\<lparr>audio_signals := []\<rparr>) s)) \<and>
   (t < 1000 \<and> fst (processVideo (env\<lparr>audio_signals := []\<rparr>) s) \<noteq> ReturnedEarly \<longrightarrow>
      fst (processVideo (env\<lparr>audio_signals := (t, LoadError) # rest\<rparr>) s) = AudioRejected) \<and>
   ((\<forall>(t', sg) \<in> set (audio_signals env). 1000 \<le> t') \<and>
    video_mounted env \<and> canvas_mounted env \<and> ctx_available env \<and> videoUrl s \<noteq> None \<and>
    isTypeSupported env (select_mimeType (isTypeSupported env)) \<and>
    metadata_loads env \<and> play_fulfils env \<longrightarrow>
      (\<exists>cl. fst (processVideo env s) = LoopStarted cl) \<and>
      isProcessing (processing (snd (processVideo env s))) \<and>
      frame_scheduled (snd (processVideo env s)) \<and>
      map_option state (mediaRecorderRef (snd (processVideo env s))) = Some Recording)"
proof (intro conjI impI allI)
  assume late: "\<forall>(t', sg) \<in> set (audio_signals env). 1000 \<le> t'"
  note w = wait_audio_timer[OF late]
  show "processVideo env s = processVideo (env\<lparr>audio_signals := []\<rparr>) s"
    by (simp add: processVideo_def Let_def w audio_timeout_ms_def)
  show "fst (processVideo env s) \<noteq> AudioRejected"
    by (simp add: processVideo_def Let_def w)
  show "ss_startTime cl = clock_when_started env 1000" if "fst (processVideo env s) = LoopStarted cl" for cl
    using processVideo_LoopStarted(4)[OF that] by (simp add: w)
next
  assume t: "t < 1000"
  let ?env = "env\<lparr>audio_signals := (t, CanPlayThrough) # rest\<rparr>"
  have w: "wait_audio (audio_signals ?env) = (ReadyFired, t)" using t by (simp add: audio_timeout_ms_def)
  show "fst (processVideo ?env s) \<noteq> AudioRejected"
    unfolding processVideo_def Let_def w by simp
  show "ss_startTime cl = clock_when_started env t" if "fst (processVideo ?env s) = LoopStarted cl" for cl
    using processVideo_LoopStarted(4)[OF that] w by simp
  show "snd (processVideo ?env s) = snd (processVideo (env\<lparr>audio_signals := []\<rparr>) s)"
    unfolding processVideo_def Let_def w by (simp add: audio_timeout_ms_def)
next
  assume h: "t < 1000 \<and> fst (processVideo (env\<lparr>audio_signals := []\<rparr>) s) \<noteq> ReturnedEarly"
  let ?env = "env\<lparr>audio_signals := (t, LoadError) # rest\<rparr>"
  have w: "wait_audio (audio_signals ?env) = (LoadFailed, t)" using h by (simp add: audio_timeout_ms_def)
  from h have "\<not> (\<not> video_mounted env \<or> \<not> canvas_mounted env \<or> videoUrl s = None)" "ctx_available env"
    by (auto simp: processVideo_def split: if_splits)
  then show "fst (processVideo ?env s) = AudioRejected"
    unfolding processVideo_def Let_def w by simp
next
  assume a: "(\<forall>(t', sg) \<in> set (audio_signals env). 1000 \<le> t') \<and>
    video_mounted env \<and> canvas_mounted env \<and> ctx_available env \<and> videoUrl s \<noteq> None \<and>
    isTypeSupported env (select_mimeType (isTypeSupported env)) \<and>
    metadata_loads env \<and> play_fulfils env"
  then have w: "fst (wait_audio (audio_signals env)) \<noteq> LoadFailed"
    using wait_audio_timer[of "audio_signals env"] by simp
  note ps = processVideo_started[OF w, of s]
  show "\<exists>cl. fst (processVideo env s) = LoopStarted cl" using ps(1) a by blast
  show "isProcessing (processing (snd (processVideo env s)))" using ps(2) a by blast
  show "frame_scheduled (snd (processVideo env s))" using ps(3) a by blast
  show "map_option state (mediaRecorderRef (snd (processVideo env s))) = Some Recording"
    using ps(4) a by blast
qed

text \<open>
  The sample session, whose audio is ready only after 2500 ms, and two variants of it:
  ready after 300 ms, and failing to load after 300 ms.
\<close>

theorem audio_wait_first_settles_witness:
  "fst (processVideo sample_env sample_uploaded) = LoopStarted sample_session \<and>
   ss_startTime sample_session = Num 1000 \<and>
   fst (processVideo (sample_env\<lparr>audio_signals := [(300, CanPlayThrough), (2500, LoadError)]\<rparr>)
          sample_uploaded) = LoopStarted (sample_session\<lparr>ss_startTime := Num 300\<rparr>) \<and>
   snd (processVideo (sample_env\<lparr>audio_signals := [(300, CanPlayThrough), (2500, LoadError)]\<rparr>)
          sample_uploaded) = sample_running \<and>
   fst (processVideo (sample_env\<lparr>audio_signals := [(300, LoadError), (2500, LoadError)]\<rparr>)
          sample_uploaded) = AudioRejected \<and>
   isProcessing (processing sample_running) \<and> frame_scheduled sample_running \<and>
   map_option state (mediaRecorderRef sample_running) = Some Recording"
proof -
  have e: "\<forall>(t', sg) \<in> set (audio_signals sample_env). 1000 \<le> t'"
    "video_mounted sample_env" "canvas_mounted sample_env" "ctx_available sample_env"
    "videoUrl sample_uploaded \<noteq> None" "metadata_loads sample_env" "play_fulfils sample_env"
    "isTypeSupported sample_env (select_mimeType (isTypeSupported sample_env))"
    "clock_when_started sample_env = (\<lambda>w. Num (real w))"
    by (simp_all add: sample_select, simp_all add: sample_env_def sample_uploaded_def handleFileUpload_def)
  have r: "snd (processVideo sample_env sample_uploaded) = sample_running"
    by (simp add: sample_running_def)
  note T = audio_wait_first_settles[of sample_env sample_uploaded 300 "[(2500, LoadError)]"]
  from T e have p1: "processVideo sample_env sample_uploaded =
      processVideo (sample_env\<lparr>audio_signals := []\<rparr>) sample_uploaded" by blast
  have ne: "fst (processVideo (sample_env\<lparr>audio_signals := []\<rparr>) sample_uploaded) \<noteq> ReturnedEarly"
    using p1 sample_started by simp
  have q: "fst (processVideo (sample_env\<lparr>audio_signals := [(300, CanPlayThrough), (2500, LoadError)]\<rparr>)
          sample_uploaded) = LoopStarted (sample_session\<lparr>ss_startTime := Num 300\<rparr>)"
    by (simp add: processVideo_def Let_def sample_env_def sample_uploaded_def handleFileUpload_def
        initial_state_def resize_canvas_def select_mimeType_def audio_timeout_ms_def sample_session_def)
  show ?thesis
    using T e ne p1 sample_started r q
    by (simp add: sample_session_def)
qed

text \<open>
  Against C7 as stated: in the sample browser with a \<^verbatim>\<open>play()\<close> that rejects, the audio
  element is silent during the first second and raises no error, the timer ends the wait,
  and yet the call is rejected and no render loop is scheduled.
\<close>

theorem timeout_path_can_still_fail:
  "audio_signals (sample_env\<lparr>play_fulfils := False\<rparr>) = [(2500, CanPlayThrough)] \<and>
   fst (processVideo (sample_env\<lparr>play_fulfils := False\<rparr>) sample_uploaded) = PlayRejected \<and>
   \<not> frame_scheduled (snd (processVideo (sample_env\<lparr>play_fulfils := False\<rparr>) sample_uploaded))"
  by (simp add: processVideo_def Let_def sample_env_def sample_uploaded_def handleFileUpload_def
      initial_state_def resize_canvas_def select_mimeType_def audio_timeout_ms_def)

section \<open>The recording type (C8)\<close>

text \<open>
  Claim C8. The type is the first supported one of VP9 with Opus and VP8 with Opus, in this
  order, and plain WebM failing both: whenever one of the three is supported, it is the
  first supported one of the three. The recorder is configured with it and the stop
  handler tags the artifact's blob with it.
\<close>

theorem mimeType_preference:
  "select_mimeType supported =
     (case find supported [''video/webm;codecs=vp9,opus'', ''video/webm;codecs=vp8,opus''] of
        Some m \<Rightarrow> m | None \<Rightarrow> ''video/webm'') \<and>
   ((\<exists>m \<in> set [''video/webm;codecs=vp9,opus'', ''video/webm;codecs=vp8,opus'', ''video/webm''].
        supported m) \<longrightarrow>
      find supported [''video/webm;codecs=vp9,opus'', ''video/webm;codecs=vp8,opus'', ''video/webm'']
        = Some (select_mimeType supported)) \<and>
   (fst (processVideo env s) = LoopStarted cl \<longrightarrow>
      map_option mimeType (mediaRecorderRef (snd (processVideo env s))) =
        Some (select_mimeType (isTypeSupported env)) \<and>
      (\<forall>s'. processedVideoUrl (onstop cl s') =
              Some (BlobURL (recordedChunksRef s') (select_mimeType (isTypeSupported env)))))"
proof (intro conjI impI allI)
  show "select_mimeType supported =
     (case find supported [''video/webm;codecs=vp9,opus'', ''video/webm;codecs=vp8,opus''] of
        Some m \<Rightarrow> m | None \<Rightarrow> ''video/webm'')"
    by (simp add: select_mimeType_def)
  show "find supported [''video/webm;codecs=vp9,opus'', ''video/webm;codecs=vp8,opus'', ''video/webm'']
        = Some (select_mimeType supported)"
    if "\<exists>m \<in> set [''video/webm;codecs=vp9,opus'', ''video/webm;codecs=vp8,opus'', ''video/webm''].
          supported m"
    using that by (auto simp: select_mimeType_def)
  show "map_option mimeType (mediaRecorderRef (snd (processVideo env s))) =
          Some (select_mimeType (isTypeSupported env))"
    if "fst (processVideo env s) = LoopStarted cl"
    using that by (rule processVideo_LoopStarted(2))
  show "processedVideoUrl (onstop cl s') =
          Some (BlobURL (recordedChunksRef s') (select_mimeType (isTypeSupported env)))"
    if "fst (processVideo env s) = LoopStarted cl" for s'
    using processVideo_LoopStarted(1)[OF that] by (simp add: onstop_def)
qed

text \<open>
  The sample browser, which records VP8 but not VP9.
\<close>

theorem mimeType_preference_witness:
  "select_mimeType (isTypeSupported sample_env) = ''video/webm;codecs=vp8,opus'' \<and>
   find (isTypeSupported sample_env)
     [''video/webm;codecs=vp9,opus'', ''video/webm;codecs=vp8,opus'', ''video/webm'']
     = Some ''video/webm;codecs=vp8,opus'' \<and>
   map_option mimeType (mediaRecorderRef (snd (processVideo sample_env sample_uploaded))) =
     Some ''video/webm;codecs=vp8,opus'' \<and>
   processedVideoUrl (onstop sample_session (sample_running\<lparr>recordedChunksRef := [[1, 2], [3]]\<rparr>)) =
     Some (BlobURL [[1, 2], [3]] ''video/webm;codecs=vp8,opus'')"
proof -
  have w: "isTypeSupported sample_env ''video/webm''" by (simp add: sample_env_def)
  have v: "find (isTypeSupported sample_env)
      [''video/webm;codecs=vp9,opus'', ''video/webm;codecs=vp8,opus''] = Some ''video/webm;codecs=vp8,opus''"
    by (simp add: sample_env_def)
  show ?thesis
    using mimeType_preference[of "isTypeSupported sample_env" sample_env sample_uploaded sample_session]
      w v sample_started
    by (auto simp: sample_select)
qed

section \<open>Uploading a file (C9)\<close>

text \<open>
  Claim C9. Uploading a file sets the source handle, clears the artifact handle and resets
  progress and frames done to 0; the style and the other fields of the processing state
  stay as they were.
\<close>

theorem handleFileUpload_frame:
  "videoUrl (handleFileUpload (Some f) s) = Some (FileURL f) \<and>
   processedVideoUrl (handleFileUpload (Some f) s) = None \<and>
   progress (processing (handleFileUpload (Some f) s)) = Num 0 \<and>
   processedFrames (processing (handleFileUpload (Some f) s)) = Num 0 \<and>
   style (handleFileUpload (Some f) s) = style s \<and>
   fps (processing (handleFileUpload (Some f) s)) = fps (processing s) \<and>
   totalFrames (processing (handleFileUpload (Some f) s)) = totalFrames (processing s) \<and>
   estimatedTimeRemaining (processing (handleFileUpload (Some f) s)) =
     estimatedTimeRemaining (processing s) \<and>
   isProcessing (processing (handleFileUpload (Some f) s)) = isProcessing (processing s)"
  by (simp add: handleFileUpload_def)

section \<open>Frames done and frames total (C10)\<close>

text \<open>
  Claim C10, as the code has it. Frames total is the ceiling of the duration, and frames
  done is the floor of the binary64 product of the current time and 30. Once the current
  time is past a thirtieth of frames total, frames done is at least frames total. It grows
  with the current time: for a duration of at most \<open>2 ^ 48\<close> seconds it is more than
  frames total once the current time has reached a thirtieth of frames total plus one, and
  at most 30 times frames total while the current time is within the duration.
\<close>

theorem frames_done_versus_total:
  assumes "\<not> paused rd" "\<not> ended rd" "currentTime rd = Num t" "ss_duration cl = Num d"
    "to_double d = Num d"
  shows "totalFrames (processing (renderFrame cl rd i s)) = Num (of_int \<lceil>d\<rceil>) \<and>
         processedFrames (processing (renderFrame cl rd i s)) = js_floor (to_double (t * 30)) \<and>
         (of_int \<lceil>d\<rceil> / 30 < t \<longrightarrow>
            js_le (totalFrames (processing (renderFrame cl rd i s)))
                  (processedFrames (processing (renderFrame cl rd i s)))) \<and>
         (\<bar>d\<bar> \<le> 2 ^ 48 \<and> (of_int \<lceil>d\<rceil> + 1) / 30 \<le> t \<longrightarrow>
            js_le (Num (of_int (\<lceil>d\<rceil> + 1))) (processedFrames (processing (renderFrame cl rd i s)))) \<and>
         (\<forall>rd' i' s' t'. \<not> paused rd' \<and> \<not> ended rd' \<and> currentTime rd' = Num t' \<and> t \<le> t' \<longrightarrow>
            js_le (processedFrames (processing (renderFrame cl rd i s)))
                  (processedFrames (processing (renderFrame cl rd' i' s')))) \<and>
         (\<bar>d\<bar> \<le> 2 ^ 48 \<and> t \<le> d \<longrightarrow>
            js_le (processedFrames (processing (renderFrame cl rd i s))) (Num (of_int (30 * \<lceil>d\<rceil>))))"
proof (intro conjI impI allI)
  show tf: "totalFrames (processing (renderFrame cl rd i s)) = Num (of_int \<lceil>d\<rceil>)"
    using assms by (simp add: processing_renderFrame)
  show pf: "processedFrames (processing (renderFrame cl rd i s)) = js_floor (to_double (t * 30))"
    using assms by (simp add: processing_renderFrame fl_mul_Num)
  show "js_le (totalFrames (processing (renderFrame cl rd i s)))
              (processedFrames (processing (renderFrame cl rd i s)))"
    if "of_int \<lceil>d\<rceil> / 30 < t"
  proof -
    from that have "of_int \<lceil>d\<rceil> \<le> t * 30" by simp
    then have "js_le (to_double (of_int \<lceil>d\<rceil>)) (to_double (t * 30))" by (rule to_double_mono)
    then have "js_le (Num (of_int \<lceil>d\<rceil>)) (to_double (t * 30))"
      by (simp only: to_double_ceiling[OF assms(5)])
    then show ?thesis unfolding tf pf by (rule js_le_floor_ge)
  qed
  show "js_le (Num (of_int (\<lceil>d\<rceil> + 1))) (processedFrames (processing (renderFrame cl rd i s)))"
    if h: "\<bar>d\<bar> \<le> 2 ^ 48 \<and> (of_int \<lceil>d\<rceil> + 1) / 30 \<le> t"
  proof -
    from h have "of_int (\<lceil>d\<rceil> + 1) \<le> t * 30" by simp
    then have "js_le (to_double (of_int (\<lceil>d\<rceil> + 1))) (to_double (t * 30))" by (rule to_double_mono)
    moreover have "to_double (of_int (\<lceil>d\<rceil> + 1)) = Num (of_int (\<lceil>d\<rceil> + 1))"
    proof (rule to_double_small_int[of d])
      show "\<bar>d\<bar> \<le> 2 ^ 48" using h by simp
      show "\<bar>\<lceil>d\<rceil> + 1\<bar> \<le> 30 * (\<bar>\<lceil>d\<rceil>\<bar> + 1)" by (rule abs_bounds_int(1))
    qed
    ultimately have "js_le (Num (of_int (\<lceil>d\<rceil> + 1))) (to_double (t * 30))" by simp
    then show ?thesis unfolding pf by (rule js_le_floor_ge)
  qed
  show "js_le (processedFrames (processing (renderFrame cl rd i s)))
              (processedFrames (processing (renderFrame cl rd' i' s')))"
    if h: "\<not> paused rd' \<and> \<not> ended rd' \<and> currentTime rd' = Num t' \<and> t \<le> t'" for rd' i' s' t'
  proof -
    have pf': "processedFrames (processing (renderFrame cl rd' i' s')) = js_floor (to_double (t' * 30))"
      using h by (simp add: processing_renderFrame fl_mul_Num)
    from h have "t * 30 \<le> t' * 30" by simp
    then have "js_le (to_double (t * 30)) (to_double (t' * 30))" by (rule to_double_mono)
    then show ?thesis unfolding pf pf' by (rule js_floor_mono)
  qed
  show "js_le (processedFrames (processing (renderFrame cl rd i s))) (Num (of_int (30 * \<lceil>d\<rceil>)))"
    if h: "\<bar>d\<bar> \<le> 2 ^ 48 \<and> t \<le> d"
  proof -
    have "d \<le> of_int \<lceil>d\<rceil>" by linarith
    with h have "t \<le> of_int \<lceil>d\<rceil>" by linarith
    then have "t * 30 \<le> of_int \<lceil>d\<rceil> * 30" by (rule mult_right_mono) simp
    also have "of_int \<lceil>d\<rceil> * 30 = real_of_int (30 * \<lceil>d\<rceil>)" by (simp only: of_int_mult of_int_numeral mult.commute)
    finally have "t * 30 \<le> of_int (30 * \<lceil>d\<rceil>)" .
    then have "js_le (to_double (t * 30)) (to_double (of_int (30 * \<lceil>d\<rceil>)))" by (rule to_double_mono)
    moreover have "to_double (of_int (30 * \<lceil>d\<rceil>)) = Num (of_int (30 * \<lceil>d\<rceil>))"
    proof (rule to_double_small_int[of d])
      show "\<bar>d\<bar> \<le> 2 ^ 48" using h by simp
      show "\<bar>30 * \<lceil>d\<rceil>\<bar> \<le> 30 * (\<bar>\<lceil>d\<rceil>\<bar> + 1)" by (rule abs_bounds_int(2))
    qed
    ultimately have "js_le (to_double (t * 30)) (Num (of_int (30 * \<lceil>d\<rceil>)))" by simp
    then show ?thesis unfolding pf by (rule js_le_floor_le)
  qed
qed

text \<open>
  The sample session at 5 seconds, and at 2.5 seconds before that.
\<close>

theorem frames_done_versus_total_witness:
  "totalFrames (processing (renderFrame sample_session (playing_at 5 6000) 2 sample_running)) = Num 10 \<and>
   processedFrames (processing (renderFrame sample_session (playing_at 5 6000) 2 sample_running)) = Num 150 \<and>
   js_le (totalFrames (processing (renderFrame sample_session (playing_at 5 6000) 2 sample_running)))
         (processedFrames (processing (renderFrame sample_session (playing_at 5 6000) 2 sample_running))) \<and>
   js_le (Num 11) (processedFrames (processing (renderFrame sample_session (playing_at 5 6000) 2 sample_running))) \<and>
   js_le (processedFrames (processing (renderFrame sample_session (playing_at (5 / 2) 3500) 2 sample_running)))
         (processedFrames (processing (renderFrame sample_session (playing_at 5 6000) 2 sample_running))) \<and>
   js_le (processedFrames (processing (renderFrame sample_session (playing_at 5 6000) 2 sample_running)))
         (Num 300)"
proof -
  have a: "\<not> paused (playing_at 5 6000)" "\<not> ended (playing_at 5 6000)"
    "currentTime (playing_at 5 6000) = Num 5" "ss_duration sample_session = Num 10"
    "to_double 10 = Num 10"
    by (simp_all add: playing_at_def sample_session_def sample_doubles)
  have b: "\<not> paused (playing_at (5 / 2) 3500)" "\<not> ended (playing_at (5 / 2) 3500)"
    "currentTime (playing_at (5 / 2) 3500) = Num (5 / 2)" "ss_duration sample_session = Num 10"
    "to_double 10 = Num 10"
    by (simp_all add: playing_at_def sample_session_def sample_doubles)
  have c: "\<lceil>10::real\<rceil> = 10" "\<bar>10::real\<bar> \<le> 2 ^ 48" by simp_all
  note A = frames_done_versus_total[OF a, of 2 sample_running]
  note B = frames_done_versus_total[OF b, of 2 sample_running]
  from A have 1: "totalFrames (processing (renderFrame sample_session (playing_at 5 6000) 2 sample_running)) = Num 10"
    and 2: "processedFrames (processing (renderFrame sample_session (playing_at 5 6000) 2 sample_running)) = Num 150"
    by (simp_all add: sample_doubles)
  have 5: "js_le (processedFrames (processing (renderFrame sample_session (playing_at (5 / 2) 3500) 2 sample_running)))
         (processedFrames (processing (renderFrame sample_session (playing_at 5 6000) 2 sample_running)))"
    by (rule B[THEN conjunct2, THEN conjunct2, THEN conjunct2, THEN conjunct2, THEN conjunct1,
          rule_format, of "playing_at 5 6000" 5 2 sample_running])
      (simp add: a)
  show ?thesis using 1 2 5 by simp
qed

text \<open>
  Against C10 as stated: at 11/32 of a second of the ten-second sample the current time
  is past \<open>10 / 30\<close>, and frames done equals frames total.
\<close>

theorem frames_done_equal_total_at_boundary:
  "(10::real) / 30 < 11 / 32 \<and>
   processedFrames
     (processing (renderFrame sample_session (playing_at (11 / 32) 2000) 2 sample_running)) = Num 10 \<and>
   totalFrames
     (processing (renderFrame sample_session (playing_at (11 / 32) 2000) 2 sample_running)) = Num 10"
  by (simp add: processing_renderFrame playing_at_def sample_session_def fl_mul_Num sample_doubles)

end
